theory Spec2Isabelle
  imports Main "HOL-Library.AList" "HOL-Library.Word"
begin

section \<open>Python values, dictionaries and exceptions\<close>

text \<open>
  The incremental extraction engine of tap-marketo (\<^verbatim>\<open>tap_marketo/sync.py\<close>) is embedded
  function by function.  Instants are integers counting microseconds since the epoch in
  UTC, the resolution of a pendulum datetime.  A string that holds an ISO-8601 timestamp
  is represented by the instant it denotes (\<open>PTime\<close>): \<^verbatim>\<open>pendulum.parse\<close> and
  \<^verbatim>\<open>isoformat\<close> are taken to be inverse to each other on such strings.  Every other
  string is a \<open>PStr\<close>.  A float is carried by its 64-bit pattern and is never computed with.
\<close>

type_synonym ts = int

datatype pyval =
    PNone
  | PBool bool
  | PInt int
  | PFloat "64 word"
  | PStr string
  | PTime ts
  | PList "pyval list"
  | PDict "(string \<times> pyval) list"

text \<open>A Python dict with string keys, in insertion order; the first binding of a key counts.\<close>

type_synonym pydict = "(string \<times> pyval) list"

datatype error =
    KeyError string
  | TypeError
  | ValueError
  | AttributeError
  | ParserError
  | ExportFailed
  | ClientError string
  | NotImplemented string

text \<open>\<^verbatim>\<open>d.get(k)\<close>: the value, or None when the key is missing.\<close>

definition dict_get :: "pydict \<Rightarrow> string \<Rightarrow> pyval" where
  "dict_get d k = (case map_of d k of None \<Rightarrow> PNone | Some v \<Rightarrow> v)"

text \<open>\<^verbatim>\<open>d[k]\<close>: the value, or KeyError when the key is missing.\<close>

definition dict_item :: "pydict \<Rightarrow> string \<Rightarrow> error + pyval" where
  "dict_item d k = (case map_of d k of None \<Rightarrow> Inl (KeyError k) | Some v \<Rightarrow> Inr v)"

text \<open>Python truthiness, as tested by \<^verbatim>\<open>if x:\<close> and \<^verbatim>\<open>not x\<close>.\<close>

fun truthy :: "pyval \<Rightarrow> bool" where
  "truthy PNone = False"
| "truthy (PBool b) = b"
| "truthy (PInt i) = (i \<noteq> 0)"
| "truthy (PFloat w) = (w \<noteq> 0 \<and> w \<noteq> 0x8000000000000000)"
| "truthy (PStr s) = (s \<noteq> [])"
| "truthy (PTime t) = True"
| "truthy (PList xs) = (xs \<noteq> [])"
| "truthy (PDict d) = (d \<noteq> [])"

text \<open>
  \<^verbatim>\<open>str.lower\<close> and \<^verbatim>\<open>str.replace(" ", "_")\<close> on the ASCII range.  No character
  outside ASCII lowercases to a letter of \<^verbatim>\<open>true\<close>, so the comparison with that
  literal is not affected by the restriction.
\<close>

definition lower_char :: "char \<Rightarrow> char" where
  "lower_char c =
     (case map_of (zip ''ABCDEFGHIJKLMNOPQRSTUVWXYZ'' ''abcdefghijklmnopqrstuvwxyz'') c of
        None \<Rightarrow> c
      | Some l \<Rightarrow> l)"

definition str_lower :: "string \<Rightarrow> string" where
  "str_lower s = map lower_char s"

definition spaces_to_underscores :: "string \<Rightarrow> string" where
  "spaces_to_underscores s = map (\<lambda>c. if c = CHR '' '' then CHR ''_'' else c) s"

text \<open>
  \<^verbatim>\<open>pendulum.parse\<close>: defined on timestamp strings only; any other string does not
  parse, and a value that is no string is a type error.
\<close>

fun pendulum_parse :: "pyval \<Rightarrow> error + ts" where
  "pendulum_parse (PTime t) = Inr t"
| "pendulum_parse (PStr s) = Inl ParserError"
| "pendulum_parse v = Inl TypeError"

section \<open>The environment: clock, client and library\<close>

text \<open>
  The state handed to \<^verbatim>\<open>singer.write_state\<close>: the bookmarks, a dict of dicts keyed
  by stream id and bookmark name, and the currently-syncing marker.
\<close>

record state =
  bookmarks :: "(string \<times> pydict) list"
  currently_syncing :: pyval

text \<open>The response of \<^verbatim>\<open>client.request\<close>, with the three keys the engine reads.\<close>

record response =
  resp_result :: "pydict list"
  resp_warnings :: "string list"
  resp_next_page_token :: "pyval option"

text \<open>
  Everything the engine does to the outside is recorded in order of occurrence: what
  it hands to singer, and each call of the client with its arguments.  \<open>Window\<close> is a
  ghost event: it marks the window \<open>[export_start, export_end)\<close> a windowed driver
  has just settled on, and stands for no output of the program.
\<close>

datatype event =
    WriteSchema string
  | WriteState state
  | WriteRecord string pyval
  | Metric string nat
  | CallExportAvailable string pyval
  | CallCreateExport string "string list" pydict
  | CallWaitForExport string pyval
  | CallStreamExport string pyval
  | CallRequest string string pydict
  | Window ts ts

text \<open>
  The world counts the calls made so far to the outside (clock or client) and keeps the
  record of events.  The environment answers the call number \<open>n\<close>: since the engine is
  deterministic, this covers every behaviour of a clock and of a remote service.
  \<^verbatim>\<open>client.create_export\<close> returns a job id, a string.  The conversions of the
  Python library that the engine applies to raw values are parameters as well:
  \<^verbatim>\<open>int(v)\<close>, \<^verbatim>\<open>str(v)\<close>, \<^verbatim>\<open>float(v)\<close>, \<^verbatim>\<open>json.loads(v).items()\<close> and the
  comparison \<^verbatim>\<open>a >= b\<close> of a record value with a bookmark.
\<close>

record world =
  tick :: nat
  events :: "event list"

record env =
  clock :: "nat \<Rightarrow> ts"
  use_corona :: bool
  client_export_available :: "nat \<Rightarrow> string \<Rightarrow> pyval \<Rightarrow> error + bool"
  client_create_export :: "nat \<Rightarrow> string \<Rightarrow> string list \<Rightarrow> pydict \<Rightarrow> error + string"
  client_wait_for_export :: "nat \<Rightarrow> string \<Rightarrow> pyval \<Rightarrow> error + unit"
  client_stream_export :: "nat \<Rightarrow> string \<Rightarrow> pyval \<Rightarrow> error + pydict list"
  client_request :: "nat \<Rightarrow> string \<Rightarrow> string \<Rightarrow> pydict \<Rightarrow> error + response"
  py_int :: "pyval \<Rightarrow> error + pyval"
  py_str :: "pyval \<Rightarrow> pyval"
  py_float :: "pyval \<Rightarrow> error + pyval"
  json_loads :: "pyval \<Rightarrow> error + pydict"
  py_ge :: "pyval \<Rightarrow> pyval \<Rightarrow> error + bool"

text \<open>
  The outcome of a driver, whose loop is cut off by its fuel in the model: a value, an
  exception, or the fuel used up.  A function without a loop returns \<open>error + 'a\<close>.
\<close>

datatype 'a res = Ok 'a | Raise error | OutOfFuel

definition emit :: "world \<Rightarrow> event \<Rightarrow> world" where
  "emit w e = w\<lparr>events := events w @ [e]\<rparr>"

definition call :: "world \<Rightarrow> event \<Rightarrow> world" where
  "call w e = w\<lparr>tick := Suc (tick w), events := events w @ [e]\<rparr>"

text \<open>\<^verbatim>\<open>pendulum.utcnow()\<close>: one reading of the clock.\<close>

definition utcnow :: "env \<Rightarrow> world \<Rightarrow> world \<times> ts" where
  "utcnow E w = (w\<lparr>tick := Suc (tick w)\<rparr>, clock E (tick w))"

definition write_schema :: "world \<Rightarrow> string \<Rightarrow> world" where
  "write_schema w sid = emit w (WriteSchema sid)"

definition write_state :: "world \<Rightarrow> state \<Rightarrow> world" where
  "write_state w st = emit w (WriteState st)"

definition write_record :: "world \<Rightarrow> string \<Rightarrow> pyval \<Rightarrow> world" where
  "write_record w sid r = emit w (WriteRecord sid r)"

definition export_available :: "env \<Rightarrow> world \<Rightarrow> string \<Rightarrow> pyval \<Rightarrow> world \<times> (error + bool)" where
  "export_available E w kind export_id =
     (call w (CallExportAvailable kind export_id), client_export_available E (tick w) kind export_id)"

definition create_export ::
  "env \<Rightarrow> world \<Rightarrow> string \<Rightarrow> string list \<Rightarrow> pydict \<Rightarrow> world \<times> (error + string)" where
  "create_export E w kind flds query =
     (call w (CallCreateExport kind flds query), client_create_export E (tick w) kind flds query)"

definition client_wait :: "env \<Rightarrow> world \<Rightarrow> string \<Rightarrow> pyval \<Rightarrow> world \<times> (error + unit)" where
  "client_wait E w kind export_id =
     (call w (CallWaitForExport kind export_id), client_wait_for_export E (tick w) kind export_id)"

definition request :: "env \<Rightarrow> world \<Rightarrow> string \<Rightarrow> string \<Rightarrow> pydict \<Rightarrow> world \<times> (error + response)" where
  "request E w endpoint endpoint_name params =
     (call w (CallRequest endpoint endpoint_name params),
      client_request E (tick w) endpoint endpoint_name params)"

section \<open>Bookmark store\<close>

text \<open>
  The functions of \<^verbatim>\<open>singer.bookmarks\<close>.  \<^verbatim>\<open>write_bookmark\<close> creates the dict of
  the stream when it is missing and assigns the key in place; the model returns the
  updated state, and every function that updates the state returns it to its caller,
  which in Python sees the same object.
\<close>

definition get_bookmark :: "state \<Rightarrow> string \<Rightarrow> string \<Rightarrow> pyval" where
  "get_bookmark st sid k =
     (case map_of (bookmarks st) sid of None \<Rightarrow> PNone | Some d \<Rightarrow> dict_get d k)"

definition write_bookmark :: "state \<Rightarrow> string \<Rightarrow> string \<Rightarrow> pyval \<Rightarrow> state" where
  "write_bookmark st sid k v =
     st\<lparr>bookmarks :=
          AList.update sid
            (AList.update k v (case map_of (bookmarks st) sid of None \<Rightarrow> [] | Some d \<Rightarrow> d))
            (bookmarks st)\<rparr>"

definition get_currently_syncing :: "state \<Rightarrow> pyval" where
  "get_currently_syncing st = currently_syncing st"

definition set_currently_syncing :: "state \<Rightarrow> pyval \<Rightarrow> state" where
  "set_currently_syncing st v = st\<lparr>currently_syncing := v\<rparr>"

section \<open>Value formatter\<close>

text \<open>
  \<^verbatim>\<open>format_value(value, schema)\<close>.  The schema is a dict: \<^verbatim>\<open>schema["type"]\<close> is
  subscripted first (KeyError when the key is missing), \<^verbatim>\<open>schema.get("format")\<close> is
  read with a default.  \<^verbatim>\<open>x in [..]\<close> compares with \<^verbatim>\<open>==\<close>, which on the literals
  involved is equality of values.
\<close>

text \<open>\<^verbatim>\<open>schema["type"]\<close> as a list: itself when it is a list, else the list holding it.\<close>

fun type_list :: "pyval \<Rightarrow> pyval list" where
  "type_list (PList tys) = tys"
| "type_list ty = [ty]"

definition format_value :: "env \<Rightarrow> pyval \<Rightarrow> pydict \<Rightarrow> error + pyval" where
  "format_value E v schema =
     (case dict_item schema ''type'' of
        Inl e \<Rightarrow> Inl e
      | Inr ty \<Rightarrow>
          (let field_type = type_list ty in
           if v \<in> set [PNone, PStr '''', PStr ''null''] then Inr PNone
           else if dict_get schema ''format'' = PStr ''date-time'' then
             (case pendulum_parse v of Inl e \<Rightarrow> Inl e | Inr t \<Rightarrow> Inr (PTime t))
           else if PStr ''integer'' \<in> set field_type then py_int E v
           else if PStr ''string'' \<in> set field_type then Inr (py_str E v)
           else if PStr ''number'' \<in> set field_type then py_float E v
           else if PStr ''boolean'' \<in> set field_type then
             (case v of
                PBool b \<Rightarrow> Inr v
              | PStr s \<Rightarrow> Inr (PBool (str_lower s = ''true''))
              | PTime t \<Rightarrow> Inr (PBool False)
              | _ \<Rightarrow> Inl AttributeError)
           else Inr v))"

text \<open>
  A stream of the catalog, with the entries the engine reads: \<open>selected\<close> is
  \<^verbatim>\<open>stream["schema"].get("selected")\<close>, \<open>properties\<close> is
  \<^verbatim>\<open>stream["schema"]["properties"]\<close>, and the last two are the top-level metadata
  \<^verbatim>\<open>marketo.activity-id\<close> and \<^verbatim>\<open>marketo.primary-attribute-name\<close>.
\<close>

record stream =
  tap_stream_id :: string
  replication_key :: string
  key_properties :: "string list"
  selected :: pyval
  properties :: "(string \<times> pydict) list"
  activity_id :: pyval
  primary_attribute_name :: pyval

text \<open>\<^verbatim>\<open>format_values(stream, row)\<close>: the loop over the properties, then the function.\<close>

fun format_fields :: "env \<Rightarrow> (string \<times> pydict) list \<Rightarrow> pydict \<Rightarrow> pydict \<Rightarrow> error + pydict" where
  "format_fields E [] row rtn = Inr rtn"
| "format_fields E ((field, schema) # ps) row rtn =
     (if \<not> truthy (dict_get schema ''selected'')
         \<and> \<not> (dict_get schema ''inclusion'' = PStr ''automatic'')
      then format_fields E ps row rtn
      else (case format_value E (dict_get row field) schema of
              Inl e \<Rightarrow> Inl e
            | Inr v \<Rightarrow> format_fields E ps row (AList.update field v rtn)))"

definition format_values :: "env \<Rightarrow> stream \<Rightarrow> pydict \<Rightarrow> error + pydict" where
  "format_values E stream row = format_fields E (properties stream) row []"

section \<open>Bulk export window manager\<close>

definition MAX_EXPORT_DAYS :: int where
  "MAX_EXPORT_DAYS = 30"

definition ATTRIBUTION_WINDOW_DAYS :: int where
  "ATTRIBUTION_WINDOW_DAYS = 1"

definition BASE_ACTIVITY_FIELDS :: "string list" where
  "BASE_ACTIVITY_FIELDS = [''marketoGUID'', ''leadId'', ''activityDate'', ''activityTypeId'']"

definition ACTIVITY_FIELDS :: "string list" where
  "ACTIVITY_FIELDS =
     BASE_ACTIVITY_FIELDS @ [''primaryAttributeValue'', ''primaryAttributeValueId'', ''attributes'']"

definition NO_ASSET_MSG :: string where
  "NO_ASSET_MSG = ''No assets found for the given search criteria.''"

text \<open>A number of days as a duration, and \<^verbatim>\<open>replace(microsecond=0)\<close>.\<close>

definition days :: "int \<Rightarrow> ts" where
  "days n = n * 86400000000"

definition whole_seconds :: "ts \<Rightarrow> ts" where
  "whole_seconds t = t - t mod 1000000"

text \<open>
  \<^verbatim>\<open>update_state_with_export_info(state, stream, bookmark, export_id, export_end)\<close>;
  a parameter left at its default is None.  The three assignments to the state come
  first, then the call of \<^verbatim>\<open>singer.write_state\<close>.
\<close>

definition export_info_state :: "state \<Rightarrow> stream \<Rightarrow> pyval \<Rightarrow> pyval \<Rightarrow> pyval \<Rightarrow> state" where
  "export_info_state st stream bookmark export_id export_end =
     (let st1 = write_bookmark st (tap_stream_id stream) ''export_id'' export_id;
          st2 = write_bookmark st1 (tap_stream_id stream) ''export_end'' export_end
      in if truthy bookmark
         then write_bookmark st2 (tap_stream_id stream) (replication_key stream) bookmark
         else st2)"

definition update_state_with_export_info ::
  "world \<Rightarrow> state \<Rightarrow> stream \<Rightarrow> pyval \<Rightarrow> pyval \<Rightarrow> pyval \<Rightarrow> world \<times> state" where
  "update_state_with_export_info w st stream bookmark export_id export_end =
     (let st3 = export_info_state st stream bookmark export_id export_end
      in (write_state w st3, st3))"

text \<open>
  \<^verbatim>\<open>get_export_end(export_start)\<close> reads the clock once for the comparison and, when
  the comparison holds, a second time for the value.
\<close>

definition get_export_end :: "env \<Rightarrow> world \<Rightarrow> ts \<Rightarrow> world \<times> ts" where
  "get_export_end E w export_start =
     (let export_end = export_start + days MAX_EXPORT_DAYS;
          (w1, now1) = utcnow E w
      in if export_end \<ge> now1
         then (let (w2, now2) = utcnow E w1 in (w2, whole_seconds now2))
         else (w1, whole_seconds export_end))"

text \<open>
  \<^verbatim>\<open>wait_for_export(client, state, stream, export_id)\<close>: only ExportFailed is caught,
  and it is raised again after the state has been written.
\<close>

definition wait_for_export ::
  "env \<Rightarrow> world \<Rightarrow> state \<Rightarrow> stream \<Rightarrow> pyval \<Rightarrow> world \<times> (error + state)" where
  "wait_for_export E w st stream export_id =
     (let stream_type = (if tap_stream_id stream \<noteq> ''leads'' then ''activities'' else ''leads'')
      in case client_wait E w stream_type export_id of
           (w1, Inr u) \<Rightarrow> (w1, Inr st)
         | (w1, Inl e) \<Rightarrow>
             if e = ExportFailed
             then (let (w2, st2) = update_state_with_export_info w1 st stream PNone PNone PNone
                   in (w2, Inl ExportFailed))
             else (w1, Inl e))"

text \<open>
  \<^verbatim>\<open>stream_rows(client, stream_type, export_id)\<close>: the export is downloaded whole, then
  read as a table whose first line names the columns; the rows come as dicts.
\<close>

definition stream_rows :: "env \<Rightarrow> world \<Rightarrow> string \<Rightarrow> pyval \<Rightarrow> world \<times> (error + pydict list)" where
  "stream_rows E w stream_type export_id =
     (call w (CallStreamExport stream_type export_id),
      client_stream_export E (tick w) stream_type export_id)"

definition selected_fields :: "stream \<Rightarrow> string list" where
  "selected_fields stream =
     map fst (filter (\<lambda>(f, s). truthy (dict_get s ''selected'')
                                \<or> dict_get s ''inclusion'' = PStr ''automatic'')
                (properties stream))"

text \<open>
  \<^verbatim>\<open>get_or_create_export_for_leads(client, state, stream, export_start)\<close>.  The state
  it has written is returned with the export id and the window end.
\<close>

definition get_or_create_export_for_leads ::
  "env \<Rightarrow> world \<Rightarrow> state \<Rightarrow> stream \<Rightarrow> ts \<Rightarrow> world \<times> (error + pyval \<times> ts \<times> state)" where
  "get_or_create_export_for_leads E w st stream export_start =
     (let export_id0 = get_bookmark st ''leads'' ''export_id'' in
      case export_available E w ''leads'' export_id0 of
        (w1, Inl e) \<Rightarrow> (w1, Inl e)
      | (w1, Inr available) \<Rightarrow>
          (let export_id = (if \<not> available then PNone else export_id0) in
           if export_id = PNone then
             (let query_field = (if use_corona E then ''updatedAt'' else ''createdAt'');
                  (w2, export_end) = get_export_end E w1 export_start;
                  query = [(query_field, PDict [(''startAt'', PTime export_start),
                                                (''endAt'', PTime export_end)])]
              in case create_export E w2 ''leads'' (selected_fields stream) query of
                   (w3, Inl e) \<Rightarrow> (w3, Inl e)
                 | (w3, Inr new_id) \<Rightarrow>
                     (let (w4, st') = update_state_with_export_info w3 st stream
                                        PNone (PStr new_id) (PTime export_end)
                      in (w4, Inr (PStr new_id, export_end, st'))))
           else
             (case pendulum_parse (get_bookmark st ''leads'' ''export_end'') of
                Inl e \<Rightarrow> (w1, Inl e)
              | Inr export_end \<Rightarrow> (w1, Inr (export_id, export_end, st)))))"

text \<open>
  \<^verbatim>\<open>get_or_create_export_for_activities(client, state, stream, export_start)\<close>.
\<close>

definition get_or_create_export_for_activities ::
  "env \<Rightarrow> world \<Rightarrow> state \<Rightarrow> stream \<Rightarrow> ts \<Rightarrow> world \<times> (error + pyval \<times> ts \<times> state)" where
  "get_or_create_export_for_activities E w st stream export_start =
     (let export_id0 = get_bookmark st (tap_stream_id stream) ''export_id'' in
      case export_available E w ''activities'' export_id0 of
        (w1, Inl e) \<Rightarrow> (w1, Inl e)
      | (w1, Inr available) \<Rightarrow>
          (let export_id = (if \<not> available then PNone else export_id0) in
           if export_id = PNone then
             (let activity_type_id = activity_id stream;
                  (w2, export_end) = get_export_end E w1 export_start;
                  query = [(''createdAt'', PDict [(''startAt'', PTime export_start),
                                                  (''endAt'', PTime export_end)]),
                           (''activityTypeIds'', PList [activity_type_id])]
              in case create_export E w2 ''activities'' ACTIVITY_FIELDS query of
                   (w3, Inl e) \<Rightarrow> (w3, Inl e)
                 | (w3, Inr new_id) \<Rightarrow>
                     (let (w4, st') = update_state_with_export_info w3 st stream
                                        PNone (PStr new_id) (PTime export_end)
                      in (w4, Inr (PStr new_id, export_end, st'))))
           else
             (case pendulum_parse (get_bookmark st (tap_stream_id stream) ''export_end'') of
                Inl e \<Rightarrow> (w1, Inl e)
              | Inr export_end \<Rightarrow> (w1, Inr (export_id, export_end, st)))))"

section \<open>Row flattener\<close>

fun copy_fields :: "pydict \<Rightarrow> string list \<Rightarrow> pydict \<Rightarrow> error + pydict" where
  "copy_fields row [] rtn = Inr rtn"
| "copy_fields row (field # fs) rtn =
     (case dict_item row field of
        Inl e \<Rightarrow> Inl e
      | Inr v \<Rightarrow> copy_fields row fs (AList.update field v rtn))"

text \<open>\<^verbatim>\<open>flatten_activity(row, stream)\<close>.\<close>

definition flatten_activity :: "env \<Rightarrow> pydict \<Rightarrow> stream \<Rightarrow> error + pydict" where
  "flatten_activity E row stream =
     (case copy_fields row BASE_ACTIVITY_FIELDS [] of
        Inl e \<Rightarrow> Inl e
      | Inr rtn0 \<Rightarrow>
          (let pan_field = primary_attribute_name stream;
               with_primary =
                 (if truthy pan_field then
                    (case dict_item row ''primaryAttributeValue'' of
                       Inl e \<Rightarrow> Inl e
                     | Inr pv \<Rightarrow>
                         (case dict_item row ''primaryAttributeValueId'' of
                            Inl e \<Rightarrow> Inl e
                          | Inr pvid \<Rightarrow>
                              Inr (AList.update ''primary_attribute_value_id'' pvid
                                    (AList.update ''primary_attribute_value'' pv
                                      (AList.update ''primary_attribute_name'' pan_field rtn0)))))
                  else Inr rtn0)
           in case with_primary of
                Inl e \<Rightarrow> Inl e
              | Inr rtn1 \<Rightarrow>
                  (case map_of row ''attributes'' of
                     None \<Rightarrow> Inr rtn1
                   | Some a \<Rightarrow>
                       (case json_loads E a of
                          Inl e \<Rightarrow> Inl e
                        | Inr attrs \<Rightarrow>
                            Inr (foldl (\<lambda>rtn (key, v).
                                         AList.update (spaces_to_underscores (str_lower key)) v rtn)
                                   rtn1 attrs)))))"

section \<open>Category sync drivers\<close>

subsection \<open>Leads\<close>

text \<open>The loop over the rows of one export in \<^verbatim>\<open>sync_leads\<close>.\<close>

fun leads_rows ::
  "env \<Rightarrow> stream \<Rightarrow> ts \<Rightarrow> ts \<Rightarrow> pydict list \<Rightarrow> world \<Rightarrow> ts \<Rightarrow> nat
   \<Rightarrow> world \<times> (error + ts \<times> nat)" where
  "leads_rows E stream initial_bookmark export_end [] w max_bookmark record_count =
     (w, Inr (max_bookmark, record_count))"
| "leads_rows E stream initial_bookmark export_end (row # rows) w max_bookmark record_count =
     (case format_values E stream row of
        Inl e \<Rightarrow> (w, Inl e)
      | Inr record \<Rightarrow>
          (case dict_item record ''updatedAt'' of
             Inl e \<Rightarrow> (w, Inl e)
           | Inr u \<Rightarrow>
               (case pendulum_parse u of
                  Inl e \<Rightarrow> (w, Inl e)
                | Inr record_bookmark \<Rightarrow>
                    if use_corona E then
                      leads_rows E stream initial_bookmark export_end rows
                        (write_record w ''leads'' (PDict record)) export_end (record_count + 1)
                    else if record_bookmark \<ge> initial_bookmark then
                      leads_rows E stream initial_bookmark export_end rows
                        (write_record w ''leads'' (PDict record))
                        (max max_bookmark record_bookmark) (record_count + 1)
                    else
                      leads_rows E stream initial_bookmark export_end rows
                        w max_bookmark record_count)))"

text \<open>
  One pass through the body of the \<^verbatim>\<open>while\<close> loop of \<^verbatim>\<open>sync_leads\<close>; it returns
  the state, the window end (the next \<^verbatim>\<open>export_start\<close>), \<^verbatim>\<open>max_bookmark\<close> and the
  record count.
\<close>

definition leads_window ::
  "env \<Rightarrow> stream \<Rightarrow> ts \<Rightarrow> world \<Rightarrow> state \<Rightarrow> ts \<Rightarrow> ts \<Rightarrow> nat
   \<Rightarrow> world \<times> (error + state \<times> ts \<times> ts \<times> nat)" where
  "leads_window E stream initial_bookmark w st export_start max_bookmark record_count =
     (case get_or_create_export_for_leads E w st stream export_start of
        (w1, Inl e) \<Rightarrow> (w1, Inl e)
      | (w1, Inr (export_id, export_end, st1)) \<Rightarrow>
          (case wait_for_export E (emit w1 (Window export_start export_end)) st1 stream export_id of
             (w2, Inl e) \<Rightarrow> (w2, Inl e)
           | (w2, Inr st2) \<Rightarrow>
               (case stream_rows E w2 ''leads'' export_id of
                  (w3, Inl e) \<Rightarrow> (w3, Inl e)
                | (w3, Inr rows) \<Rightarrow>
                    (case leads_rows E stream initial_bookmark export_end rows w3
                            max_bookmark record_count of
                       (w4, Inl e) \<Rightarrow> (w4, Inl e)
                     | (w4, Inr (max_bookmark', record_count')) \<Rightarrow>
                         (let (w5, st5) = update_state_with_export_info w4 st2 stream
                                            (PTime max_bookmark') PNone PNone
                          in (w5, Inr (st5, export_end, max_bookmark', record_count')))))))"

fun leads_loop ::
  "nat \<Rightarrow> env \<Rightarrow> stream \<Rightarrow> ts \<Rightarrow> ts \<Rightarrow> world \<Rightarrow> state \<Rightarrow> ts \<Rightarrow> ts \<Rightarrow> nat
   \<Rightarrow> world \<times> (state \<times> nat) res" where
  "leads_loop 0 E stream initial_bookmark job_started w st export_start max_bookmark record_count =
     (if export_start < job_started then (w, OutOfFuel) else (w, Ok (st, record_count)))"
| "leads_loop (Suc fuel) E stream initial_bookmark job_started w st export_start max_bookmark
      record_count =
     (if export_start < job_started then
        (case leads_window E stream initial_bookmark w st export_start max_bookmark record_count of
           (w', Inl e) \<Rightarrow> (w', Raise e)
         | (w', Inr (st', export_end, max_bookmark', record_count')) \<Rightarrow>
             leads_loop fuel E stream initial_bookmark job_started w' st' export_end
               max_bookmark' record_count')
      else (w, Ok (st, record_count)))"

text \<open>\<^verbatim>\<open>sync_leads(client, state, stream)\<close>.\<close>

definition sync_leads :: "nat \<Rightarrow> env \<Rightarrow> world \<Rightarrow> state \<Rightarrow> stream \<Rightarrow> world \<times> (state \<times> nat) res" where
  "sync_leads fuel E w st stream =
     (let w0 = write_schema w ''leads'' in
      case pendulum_parse (get_bookmark st ''leads'' (replication_key stream)) of
        Inl e \<Rightarrow> (w0, Raise e)
      | Inr initial_bookmark \<Rightarrow>
          (let export_start =
                 (if use_corona E then initial_bookmark - days ATTRIBUTION_WINDOW_DAYS
                  else initial_bookmark);
               (w1, job_started) = utcnow E w0
           in leads_loop fuel E stream initial_bookmark job_started w1 st export_start
                initial_bookmark 0))"

subsection \<open>Activities\<close>

text \<open>
  In \<^verbatim>\<open>sync_activities\<close> the row is flattened and then handed to
  \<^verbatim>\<open>format_value(stream, row)\<close>: the stream dict is the value and the flattened row
  is the schema.  The stream as a Python value:
\<close>

definition stream_value :: "stream \<Rightarrow> pyval" where
  "stream_value stream =
     PDict [(''tap_stream_id'', PStr (tap_stream_id stream)),
            (''replication_key'', PStr (replication_key stream)),
            (''key_properties'', PList (map PStr (key_properties stream))),
            (''schema'', PDict [(''selected'', selected stream),
                                (''properties'',
                                 PDict (map (\<lambda>(f, s). (f, PDict s)) (properties stream)))]),
            (''metadata'', PDict [(''marketo.activity-id'', activity_id stream),
                                  (''marketo.primary-attribute-name'',
                                   primary_attribute_name stream)])]"

fun activities_rows ::
  "env \<Rightarrow> stream \<Rightarrow> pydict list \<Rightarrow> world \<Rightarrow> nat \<Rightarrow> world \<times> (error + nat)" where
  "activities_rows E stream [] w record_count = (w, Inr record_count)"
| "activities_rows E stream (row # rows) w record_count =
     (case flatten_activity E row stream of
        Inl e \<Rightarrow> (w, Inl e)
      | Inr flat \<Rightarrow>
          (case format_value E (stream_value stream) flat of
             Inl e \<Rightarrow> (w, Inl e)
           | Inr record \<Rightarrow>
               activities_rows E stream rows
                 (write_record w (tap_stream_id stream) record) (record_count + 1)))"

text \<open>One pass through the body of the \<^verbatim>\<open>while\<close> loop of \<^verbatim>\<open>sync_activities\<close>.\<close>

definition activities_window ::
  "env \<Rightarrow> stream \<Rightarrow> world \<Rightarrow> state \<Rightarrow> ts \<Rightarrow> nat \<Rightarrow> world \<times> (error + state \<times> ts \<times> nat)" where
  "activities_window E stream w st export_start record_count =
     (case get_or_create_export_for_activities E w st stream export_start of
        (w1, Inl e) \<Rightarrow> (w1, Inl e)
      | (w1, Inr (export_id, export_end, st1)) \<Rightarrow>
          (case wait_for_export E (emit w1 (Window export_start export_end)) st1 stream export_id of
             (w2, Inl e) \<Rightarrow> (w2, Inl e)
           | (w2, Inr st2) \<Rightarrow>
               (case stream_rows E w2 ''activites'' export_id of
                  (w3, Inl e) \<Rightarrow> (w3, Inl e)
                | (w3, Inr rows) \<Rightarrow>
                    (case activities_rows E stream rows w3 record_count of
                       (w4, Inl e) \<Rightarrow> (w4, Inl e)
                     | (w4, Inr record_count') \<Rightarrow>
                         (let (w5, st5) = update_state_with_export_info w4 st2 stream
                                            (PTime export_start) PNone PNone
                          in (w5, Inr (st5, export_end, record_count')))))))"

fun activities_loop ::
  "nat \<Rightarrow> env \<Rightarrow> stream \<Rightarrow> ts \<Rightarrow> world \<Rightarrow> state \<Rightarrow> ts \<Rightarrow> nat \<Rightarrow> world \<times> (state \<times> nat) res" where
  "activities_loop 0 E stream job_started w st export_start record_count =
     (if export_start < job_started then (w, OutOfFuel) else (w, Ok (st, record_count)))"
| "activities_loop (Suc fuel) E stream job_started w st export_start record_count =
     (if export_start < job_started then
        (case activities_window E stream w st export_start record_count of
           (w', Inl e) \<Rightarrow> (w', Raise e)
         | (w', Inr (st', export_end, record_count')) \<Rightarrow>
             activities_loop fuel E stream job_started w' st' export_end record_count')
      else (w, Ok (st, record_count)))"

text \<open>\<^verbatim>\<open>sync_activities(client, state, stream)\<close>.\<close>

definition sync_activities ::
  "nat \<Rightarrow> env \<Rightarrow> world \<Rightarrow> state \<Rightarrow> stream \<Rightarrow> world \<times> (state \<times> nat) res" where
  "sync_activities fuel E w st stream =
     (let w0 = write_schema w (tap_stream_id stream) in
      case pendulum_parse (get_bookmark st (tap_stream_id stream) (replication_key stream)) of
        Inl e \<Rightarrow> (w0, Raise e)
      | Inr export_start \<Rightarrow>
          (let (w1, job_started) = utcnow E w0
           in activities_loop fuel E stream job_started w1 st export_start 0))"

subsection \<open>Programs, campaigns and lists, activity types\<close>

text \<open>
  The loop over the rows of one page in \<^verbatim>\<open>sync_programs\<close> (stream \<^verbatim>\<open>programs\<close>,
  key \<^verbatim>\<open>updatedAt\<close>) and in \<^verbatim>\<open>sync_paginated\<close> (the stream's id and replication key).
\<close>

fun page_rows ::
  "env \<Rightarrow> stream \<Rightarrow> string \<Rightarrow> string \<Rightarrow> pyval \<Rightarrow> pydict list \<Rightarrow> world \<Rightarrow> nat
   \<Rightarrow> world \<times> (error + nat)" where
  "page_rows E stream sid key start_date [] w record_count = (w, Inr record_count)"
| "page_rows E stream sid key start_date (row # rows) w record_count =
     (case format_values E stream row of
        Inl e \<Rightarrow> (w, Inl e)
      | Inr record \<Rightarrow>
          (case dict_item record key of
             Inl e \<Rightarrow> (w, Inl e)
           | Inr u \<Rightarrow>
               (case py_ge E u start_date of
                  Inl e \<Rightarrow> (w, Inl e)
                | Inr newer \<Rightarrow>
                    if newer then
                      page_rows E stream sid key start_date rows
                        (write_record w sid (PDict record)) (record_count + 1)
                    else page_rows E stream sid key start_date rows w record_count)))"

definition programs_params :: "pyval \<Rightarrow> pyval \<Rightarrow> int \<Rightarrow> pydict" where
  "programs_params start_date end_date offset =
     [(''maxReturn'', PInt 200), (''offset'', PInt offset),
      (''earliestUpdatedAt'', start_date), (''latestUpdatedAt'', end_date)]"

fun programs_loop ::
  "nat \<Rightarrow> env \<Rightarrow> stream \<Rightarrow> pyval \<Rightarrow> pyval \<Rightarrow> world \<Rightarrow> int \<Rightarrow> nat \<Rightarrow> world \<times> nat res" where
  "programs_loop 0 E stream start_date end_date w offset record_count = (w, OutOfFuel)"
| "programs_loop (Suc fuel) E stream start_date end_date w offset record_count =
     (case request E w ''rest/asset/v1/programs.json'' ''programs''
             (programs_params start_date end_date offset) of
        (w1, Inl e) \<Rightarrow> (w1, Raise e)
      | (w1, Inr data) \<Rightarrow>
          if NO_ASSET_MSG \<in> set (resp_warnings data) then (w1, Ok record_count)
          else (case page_rows E stream ''programs'' ''updatedAt'' start_date (resp_result data)
                       w1 record_count of
                  (w2, Inl e) \<Rightarrow> (w2, Raise e)
                | (w2, Inr record_count') \<Rightarrow>
                    programs_loop fuel E stream start_date end_date w2 (offset + 200)
                      record_count'))"

text \<open>\<^verbatim>\<open>sync_programs(client, state, stream)\<close>.\<close>

definition sync_programs ::
  "nat \<Rightarrow> env \<Rightarrow> world \<Rightarrow> state \<Rightarrow> stream \<Rightarrow> world \<times> (state \<times> nat) res" where
  "sync_programs fuel E w st stream =
     (let w0 = write_schema w ''programs'';
          start_date = get_bookmark st ''programs'' ''updatedAt'';
          (w1, now) = utcnow E w0;
          end_date = PTime now
      in case programs_loop fuel E stream start_date end_date w1 0 0 of
           (w2, Raise e) \<Rightarrow> (w2, Raise e)
         | (w2, OutOfFuel) \<Rightarrow> (w2, OutOfFuel)
         | (w2, Ok record_count) \<Rightarrow>
             (let st' = write_bookmark st ''programs'' ''updatedAt'' end_date
              in (write_state w2 st', Ok (st', record_count))))"

text \<open>
  The \<^verbatim>\<open>while True\<close> loop of \<^verbatim>\<open>sync_paginated\<close>; \<open>params\<close> is the dict of request
  parameters, which the loop updates with each token, and \<open>paginated_endpoint\<close> is
  \<^verbatim>\<open>"rest/v1/{}.json".format(stream["tap_stream_id"])\<close>.
\<close>

definition paginated_endpoint :: "stream \<Rightarrow> string" where
  "paginated_endpoint stream = ''rest/v1/'' @ tap_stream_id stream @ ''.json''"

fun paginated_loop ::
  "nat \<Rightarrow> env \<Rightarrow> stream \<Rightarrow> pyval \<Rightarrow> world \<Rightarrow> state \<Rightarrow> pydict \<Rightarrow> nat
   \<Rightarrow> world \<times> (state \<times> nat) res" where
  "paginated_loop 0 E stream start_date w st params record_count = (w, OutOfFuel)"
| "paginated_loop (Suc fuel) E stream start_date w st params record_count =
     (case request E w (paginated_endpoint stream) (tap_stream_id stream) params of
        (w1, Inl e) \<Rightarrow> (w1, Raise e)
      | (w1, Inr data) \<Rightarrow>
          (case page_rows E stream (tap_stream_id stream) (replication_key stream) start_date
                  (resp_result data) w1 record_count of
             (w2, Inl e) \<Rightarrow> (w2, Raise e)
           | (w2, Inr record_count') \<Rightarrow>
               (case resp_next_page_token data of
                  None \<Rightarrow> (w2, Ok (st, record_count'))
                | Some token \<Rightarrow>
                    (let params' = AList.update ''nextPageToken'' token params;
                         st' = write_bookmark st (tap_stream_id stream) ''next_page_token'' token
                     in paginated_loop fuel E stream start_date (write_state w2 st') st' params'
                          record_count'))))"

text \<open>\<^verbatim>\<open>sync_paginated(client, state, stream)\<close>.\<close>

definition sync_paginated ::
  "nat \<Rightarrow> env \<Rightarrow> world \<Rightarrow> state \<Rightarrow> stream \<Rightarrow> world \<times> (state \<times> nat) res" where
  "sync_paginated fuel E w st stream =
     (let w0 = write_schema w (tap_stream_id stream);
          start_date = get_bookmark st (tap_stream_id stream) (replication_key stream);
          params0 = [(''batchSize'', PInt 300)];
          next_page_token = get_bookmark st (tap_stream_id stream) ''next_page_token'';
          params = (if truthy next_page_token
                    then AList.update ''nextPageToken'' next_page_token params0 else params0);
          (w1, now) = utcnow E w0;
          job_started = PTime now
      in case paginated_loop fuel E stream start_date w1 st params 0 of
           (w2, Raise e) \<Rightarrow> (w2, Raise e)
         | (w2, OutOfFuel) \<Rightarrow> (w2, OutOfFuel)
         | (w2, Ok (st2, record_count)) \<Rightarrow>
             (let st3 = write_bookmark st2 (tap_stream_id stream) ''next_page_token'' PNone;
                  st4 = write_bookmark st3 (tap_stream_id stream) (replication_key stream)
                          job_started
              in (write_state w2 st4, Ok (st4, record_count))))"

fun activity_types_rows ::
  "env \<Rightarrow> stream \<Rightarrow> pydict list \<Rightarrow> world \<Rightarrow> nat \<Rightarrow> world \<times> (error + nat)" where
  "activity_types_rows E stream [] w record_count = (w, Inr record_count)"
| "activity_types_rows E stream (row # rows) w record_count =
     (case format_values E stream row of
        Inl e \<Rightarrow> (w, Inl e)
      | Inr record \<Rightarrow>
          activity_types_rows E stream rows
            (write_record w ''activity_types'' (PDict record)) (record_count + 1))"

text \<open>\<^verbatim>\<open>sync_activity_types(client, state, stream)\<close>; the request has no parameters.\<close>

definition sync_activity_types ::
  "env \<Rightarrow> world \<Rightarrow> state \<Rightarrow> stream \<Rightarrow> world \<times> (state \<times> nat) res" where
  "sync_activity_types E w st stream =
     (let w0 = write_schema w ''activity_types'' in
      case request E w0 ''rest/v1/activities/types.json'' ''activity_types'' [] of
        (w1, Inl e) \<Rightarrow> (w1, Raise e)
      | (w1, Inr data) \<Rightarrow>
          (case activity_types_rows E stream (resp_result data) w1 0 of
             (w2, Inl e) \<Rightarrow> (w2, Raise e)
           | (w2, Inr record_count) \<Rightarrow> (w2, Ok (st, record_count))))"

section \<open>Sync orchestrator\<close>

text \<open>The dispatch on the stream id in \<^verbatim>\<open>sync\<close>.\<close>

definition sync_stream ::
  "nat \<Rightarrow> env \<Rightarrow> world \<Rightarrow> state \<Rightarrow> stream \<Rightarrow> world \<times> (state \<times> nat) res" where
  "sync_stream fuel E w st stream =
     (if tap_stream_id stream = ''activity_types'' then sync_activity_types E w st stream
      else if tap_stream_id stream = ''leads'' then sync_leads fuel E w st stream
      else if take 11 (tap_stream_id stream) = ''activities_'' then
        sync_activities fuel E w st stream
      else if tap_stream_id stream \<in> set [''campaigns'', ''lists''] then
        sync_paginated fuel E w st stream
      else if tap_stream_id stream = ''programs'' then sync_programs fuel E w st stream
      else (w, Raise (NotImplemented (tap_stream_id stream))))"

text \<open>
  The \<^verbatim>\<open>for\<close> loop of \<^verbatim>\<open>sync\<close> over the streams of the catalog, for a driver
  \<open>run\<close>; \<open>starting_stream\<close> is the variable of that name.
\<close>

fun sync_streams ::
  "(world \<Rightarrow> state \<Rightarrow> stream \<Rightarrow> world \<times> (state \<times> nat) res) \<Rightarrow> stream list \<Rightarrow> world \<Rightarrow> state
   \<Rightarrow> pyval \<Rightarrow> world \<times> state res" where
  "sync_streams run [] w st starting_stream = (w, Ok st)"
| "sync_streams run (stream # rest) w st starting_stream =
     (if \<not> truthy (selected stream) then sync_streams run rest w st starting_stream
      else if truthy starting_stream \<and> PStr (tap_stream_id stream) \<noteq> starting_stream then
        sync_streams run rest w st starting_stream
      else
        (let st1 = set_currently_syncing st (PStr (tap_stream_id stream));
             w1 = write_state w st1
         in case run w1 st1 stream of
              (w2, Raise e) \<Rightarrow> (w2, Raise e)
            | (w2, OutOfFuel) \<Rightarrow> (w2, OutOfFuel)
            | (w2, Ok (st2, record_count)) \<Rightarrow>
                (let w3 = emit w2 (Metric (tap_stream_id stream) record_count);
                     st3 = set_currently_syncing st2 PNone;
                     w4 = write_state w3 st3
                 in sync_streams run rest w4 st3 PNone)))"

text \<open>
  \<^verbatim>\<open>sync(client, catalog, state)\<close>.  The Python function returns nothing; the model
  returns the state it ends with.
\<close>

definition sync :: "nat \<Rightarrow> env \<Rightarrow> world \<Rightarrow> stream list \<Rightarrow> state \<Rightarrow> world \<times> state res" where
  "sync fuel E w catalog st =
     sync_streams (sync_stream fuel E) catalog w st (get_currently_syncing st)"

section \<open>Reading the record of events\<close>

text \<open>The windows, the states written and the records emitted, in order of occurrence.\<close>

fun window_of :: "event \<Rightarrow> (ts \<times> ts) list" where
  "window_of (Window s e) = [(s, e)]"
| "window_of ev = []"

definition windows :: "event list \<Rightarrow> (ts \<times> ts) list" where
  "windows evs = concat (map window_of evs)"

fun state_of :: "event \<Rightarrow> state list" where
  "state_of (WriteState st) = [st]"
| "state_of ev = []"

definition writes :: "event list \<Rightarrow> state list" where
  "writes evs = concat (map state_of evs)"

fun record_of :: "event \<Rightarrow> (string \<times> pyval) list" where
  "record_of (WriteRecord sid r) = [(sid, r)]"
| "record_of ev = []"

definition records :: "event list \<Rightarrow> (string \<times> pyval) list" where
  "records evs = concat (map record_of evs)"

fun io_of :: "event \<Rightarrow> event list" where
  "io_of (WriteState st) = [WriteState st]"
| "io_of (CallRequest ep name params) = [CallRequest ep name params]"
| "io_of ev = []"

text \<open>The requests and the state writes among the events, in order of occurrence.\<close>

definition requests_and_writes :: "event list \<Rightarrow> event list" where
  "requests_and_writes evs = concat (map io_of evs)"

text \<open>
  A list of windows is a chain from \<open>s\<close> when the first starts at \<open>s\<close> and each of the
  others starts where the one before it ends; \<open>chain_end\<close> is where the chain stops.
\<close>

fun chain :: "ts \<Rightarrow> (ts \<times> ts) list \<Rightarrow> bool" where
  "chain s [] = True"
| "chain s ((a, b) # ws) = (a = s \<and> chain b ws)"

fun chain_end :: "ts \<Rightarrow> (ts \<times> ts) list \<Rightarrow> ts" where
  "chain_end s [] = s"
| "chain_end s ((a, b) # ws) = chain_end b ws"

text \<open>
  The end that \<open>get_export_end\<close> computes for a window starting at \<open>s\<close> when its first
  reading of the clock is the call number \<open>n\<close>.
\<close>

definition fresh_end :: "env \<Rightarrow> nat \<Rightarrow> ts \<Rightarrow> ts" where
  "fresh_end E n s =
     whole_seconds (if s + days MAX_EXPORT_DAYS \<ge> clock E n then clock E (Suc n)
                    else s + days MAX_EXPORT_DAYS)"

text \<open>
  A world \<open>w'\<close> adds to \<open>w\<close> under \<open>Q\<close> when its events are those of \<open>w\<close> followed by
  further ones, among which every state written satisfies \<open>Q\<close>; it is a quiet extension
  when the further events hold neither a state write nor a window.
\<close>

definition adds :: "(state \<Rightarrow> bool) \<Rightarrow> world \<Rightarrow> world \<Rightarrow> bool" where
  "adds Q w w' = (\<exists>D. events w' = events w @ D \<and> (\<forall>s\<in>set (writes D). Q s))"

definition quiet :: "world \<Rightarrow> world \<Rightarrow> bool" where
  "quiet w w' = (\<exists>D. events w' = events w @ D \<and> writes D = [] \<and> windows D = [])"

text \<open>
  The bookmarked export is reused when the state holds an export id and the service,
  asked at the call number \<open>n\<close>, reports it available.
\<close>

definition reused_export :: "env \<Rightarrow> nat \<Rightarrow> state \<Rightarrow> string \<Rightarrow> string \<Rightarrow> bool" where
  "reused_export E n st kind sid =
     (get_bookmark st sid ''export_id'' \<noteq> PNone
      \<and> client_export_available E n kind (get_bookmark st sid ''export_id'') = Inr True)"

text \<open>
  The end of the first window of a leads run that starts at \<open>s\<close>, the service being
  asked for the bookmarked export at the call number \<open>n\<close>: the persisted end when the
  export is reused, else the end computed from the clock.
\<close>

definition first_end :: "env \<Rightarrow> nat \<Rightarrow> state \<Rightarrow> ts \<Rightarrow> ts \<Rightarrow> bool" where
  "first_end E n st s e =
     (if reused_export E n st ''leads'' ''leads''
      then get_bookmark st ''leads'' ''export_end'' = PTime e
      else e = fresh_end E (Suc n) s)"



text \<open>
  The same for a run of \<open>sync_activities\<close> on the stream \<open>sid\<close>, whose exports are of the
  kind \<^verbatim>\<open>activities\<close>.
\<close>

definition first_activities_end :: "env \<Rightarrow> nat \<Rightarrow> state \<Rightarrow> string \<Rightarrow> ts \<Rightarrow> ts \<Rightarrow> bool" where
  "first_activities_end E n st sid s e =
     (if reused_export E n st ''activities'' sid
      then get_bookmark st sid ''export_end'' = PTime e
      else e = fresh_end E (Suc n) s)"

text \<open>
  The two export fields of the stream \<open>sid\<close> are both null or both set in the state \<open>s\<close>;
  and they are in \<open>s\<close> what they are in \<open>st\<close>.
\<close>

definition paired :: "state \<Rightarrow> string \<Rightarrow> bool" where
  "paired s sid =
     ((get_bookmark s sid ''export_id'' = PNone) = (get_bookmark s sid ''export_end'' = PNone))"

definition same_export :: "state \<Rightarrow> state \<Rightarrow> string \<Rightarrow> bool" where
  "same_export st s sid =
     (get_bookmark s sid ''export_id'' = get_bookmark st sid ''export_id''
      \<and> get_bookmark s sid ''export_end'' = get_bookmark st sid ''export_end'')"

text \<open>
  A property of states that the three kinds of change the drivers make to a state keep:
  a bookmark written under a key other than the two export fields, the marker of the
  stream in progress, and the two export fields of one stream written together, both
  null or both set.
\<close>

definition stable :: "(state \<Rightarrow> bool) \<Rightarrow> bool" where
  "stable P =
     ((\<forall>s sid k v. P s \<longrightarrow> k \<notin> {''export_id'', ''export_end''} \<longrightarrow> P (write_bookmark s sid k v))
      \<and> (\<forall>s v. P s \<longrightarrow> P (set_currently_syncing s v))
      \<and> (\<forall>s sid i e. P s \<longrightarrow> ((i = PNone) \<longleftrightarrow> (e = PNone)) \<longrightarrow>
            P (write_bookmark (write_bookmark s sid ''export_id'' i) sid ''export_end'' e)))"

section \<open>The formatter's priority order, as the specification words it\<close>

text \<open>
  The specification describes the formatter as parsing by the first declared type that
  matches, in the order timestamp, integer, string, number, boolean, and as returning
  the value unchanged when none does.  This is that description, to be compared with
  \<open>format_value\<close>; the conversion for each type is the one of the source.
\<close>

datatype kind = KTimestamp | KInteger | KString | KNumber | KBoolean

definition declared_types :: "pydict \<Rightarrow> pyval list" where
  "declared_types schema = type_list (dict_get schema ''type'')"

fun declares :: "pydict \<Rightarrow> kind \<Rightarrow> bool" where
  "declares schema KTimestamp = (dict_get schema ''format'' = PStr ''date-time'')"
| "declares schema KInteger = (PStr ''integer'' \<in> set (declared_types schema))"
| "declares schema KString = (PStr ''string'' \<in> set (declared_types schema))"
| "declares schema KNumber = (PStr ''number'' \<in> set (declared_types schema))"
| "declares schema KBoolean = (PStr ''boolean'' \<in> set (declared_types schema))"

fun parse_as :: "env \<Rightarrow> kind \<Rightarrow> pyval \<Rightarrow> error + pyval" where
  "parse_as E KTimestamp v =
     (case pendulum_parse v of Inl e \<Rightarrow> Inl e | Inr t \<Rightarrow> Inr (PTime t))"
| "parse_as E KInteger v = py_int E v"
| "parse_as E KString v = Inr (py_str E v)"
| "parse_as E KNumber v = py_float E v"
| "parse_as E KBoolean v =
     (case v of
        PBool b \<Rightarrow> Inr (PBool b)
      | PStr s \<Rightarrow> Inr (PBool (str_lower s = ''true''))
      | PTime t \<Rightarrow> Inr (PBool False)
      | _ \<Rightarrow> Inl AttributeError)"

definition format_by_priority :: "env \<Rightarrow> pyval \<Rightarrow> pydict \<Rightarrow> error + pyval" where
  "format_by_priority E v schema =
     (case find (declares schema) [KTimestamp, KInteger, KString, KNumber, KBoolean] of
        None \<Rightarrow> Inr v
      | Some k \<Rightarrow> parse_as E k v)"

section \<open>The paginated sync and the orchestrator, as the specification words them\<close>

text \<open>
  A row of a page goes through the row loop without an exception when it formats, has
  the replication key and compares with the start date.
\<close>

definition row_ok :: "env \<Rightarrow> stream \<Rightarrow> string \<Rightarrow> pyval \<Rightarrow> pydict \<Rightarrow> bool" where
  "row_ok E stream key start_date row =
     (case format_values E stream row of
        Inl e \<Rightarrow> False
      | Inr r \<Rightarrow>
          (case dict_item r key of
             Inl e \<Rightarrow> False
           | Inr u \<Rightarrow> (case py_ge E u start_date of Inl e \<Rightarrow> False | Inr b \<Rightarrow> True)))"

text \<open>
  The parameters of the first request: the page size, and the persisted token when the
  bookmark holds one.
\<close>

definition first_params :: "state \<Rightarrow> stream \<Rightarrow> pydict" where
  "first_params st stream =
     (let token = get_bookmark st (tap_stream_id stream) ''next_page_token''
      in if truthy token then [(''batchSize'', PInt 300), (''nextPageToken'', token)]
         else [(''batchSize'', PInt 300)])"

text \<open>
  The requests and state writes expected of the page loop when the pages before the
  last carry the given tokens: each token is written to the bookmark before the
  request that sends it.
\<close>

fun paged_trace :: "stream \<Rightarrow> state \<Rightarrow> pydict \<Rightarrow> pyval list \<Rightarrow> event list" where
  "paged_trace stream st params [] =
     [CallRequest (paginated_endpoint stream) (tap_stream_id stream) params]"
| "paged_trace stream st params (token # tokens) =
     CallRequest (paginated_endpoint stream) (tap_stream_id stream) params
     # WriteState (write_bookmark st (tap_stream_id stream) ''next_page_token'' token)
     # paged_trace stream (write_bookmark st (tap_stream_id stream) ''next_page_token'' token)
         (AList.update ''nextPageToken'' token params) tokens"



section \<open>Example inputs\<close>

text \<open>
  An environment for the examples.  Its conversions agree with Python on None,
  booleans, integers, strings of decimal digits and timestamps, which is what the
  examples pass to them; its service has no export available, creates the job
  \<^verbatim>\<open>job\<close>, completes every export with no rows and answers every request with an
  empty last page.
\<close>

definition digits_value :: "string \<Rightarrow> int" where
  "digits_value s = foldl (\<lambda>n c. 10 * n + (int (of_char c) - 48)) 0 s"

definition sample_int :: "pyval \<Rightarrow> error + pyval" where
  "sample_int v =
     (case v of
        PInt i \<Rightarrow> Inr (PInt i)
      | PBool b \<Rightarrow> Inr (PInt (if b then 1 else 0))
      | PStr s \<Rightarrow>
          (if s \<noteq> [] \<and> list_all (\<lambda>c. c \<in> set ''0123456789'') s
           then Inr (PInt (digits_value s)) else Inl ValueError)
      | PTime t \<Rightarrow> Inl ValueError
      | PFloat w \<Rightarrow> Inl ValueError
      | _ \<Rightarrow> Inl TypeError)"

definition sample_str :: "pyval \<Rightarrow> pyval" where
  "sample_str v =
     (case v of
        PNone \<Rightarrow> PStr ''None''
      | PBool b \<Rightarrow> PStr (if b then ''True'' else ''False'')
      | _ \<Rightarrow> v)"

definition sample_float :: "pyval \<Rightarrow> error + pyval" where
  "sample_float v =
     (case v of
        PFloat w \<Rightarrow> Inr (PFloat w)
      | PNone \<Rightarrow> Inl TypeError
      | PList xs \<Rightarrow> Inl TypeError
      | PDict d \<Rightarrow> Inl TypeError
      | _ \<Rightarrow> Inl ValueError)"

definition sample_ge :: "pyval \<Rightarrow> pyval \<Rightarrow> error + bool" where
  "sample_ge a b =
     (case (a, b) of
        (PTime x, PTime y) \<Rightarrow> Inr (x \<ge> y)
      | (PInt x, PInt y) \<Rightarrow> Inr (x \<ge> y)
      | _ \<Rightarrow> Inl TypeError)"

definition last_page :: response where
  "last_page = \<lparr>resp_result = [], resp_warnings = [], resp_next_page_token = None\<rparr>"

definition sample_env :: env where
  "sample_env =
     \<lparr>clock = (\<lambda>n. 0),
      use_corona = False,
      client_export_available = (\<lambda>n kind export_id. Inr False),
      client_create_export = (\<lambda>n kind flds query. Inr ''job''),
      client_wait_for_export = (\<lambda>n kind export_id. Inr ()),
      client_stream_export = (\<lambda>n kind export_id. Inr []),
      client_request = (\<lambda>n endpoint endpoint_name params. Inr last_page),
      py_int = sample_int,
      py_str = sample_str,
      py_float = sample_float,
      json_loads = (\<lambda>v. Inl ValueError),
      py_ge = sample_ge\<rparr>"

definition world0 :: world where
  "world0 = \<lparr>tick = 0, events = []\<rparr>"

text \<open>The leads stream with its two automatic fields.\<close>

definition leads_stream :: stream where
  "leads_stream =
     \<lparr>tap_stream_id = ''leads'',
      replication_key = ''updatedAt'',
      key_properties = [''id''],
      selected = PBool True,
      properties =
        [(''id'', [(''type'', PStr ''integer''), (''inclusion'', PStr ''automatic'')]),
         (''updatedAt'', [(''type'', PList [PStr ''string'', PStr ''null'']),
                          (''format'', PStr ''date-time''),
                          (''inclusion'', PStr ''automatic'')])],
      activity_id = PNone,
      primary_attribute_name = PNone\<rparr>"

text \<open>A service whose export jobs fail, and a state that holds a job of the leads stream.\<close>

definition failing_env :: env where
  "failing_env = sample_env\<lparr>client_wait_for_export := (\<lambda>n kind export_id. Inl ExportFailed)\<rparr>"

definition state_with_export :: state where
  "state_with_export =
     \<lparr>bookmarks = [(''leads'', [(''updatedAt'', PTime 0), (''export_id'', PStr ''job''),
                                (''export_end'', PTime 5000000)])],
      currently_syncing = PStr ''leads''\<rparr>"

text \<open>
  An activities stream whose bookmark is the epoch, and a clock that stands at ten days
  after it.
\<close>

definition activities_stream :: stream where
  "activities_stream =
     \<lparr>tap_stream_id = ''activities_1'',
      replication_key = ''activityDate'',
      key_properties = [''marketoGUID''],
      selected = PBool True,
      properties =
        [(''marketoGUID'', [(''type'', PStr ''string''), (''inclusion'', PStr ''automatic'')]),
         (''activityDate'', [(''type'', PStr ''string''), (''format'', PStr ''date-time''),
                             (''inclusion'', PStr ''automatic'')])],
      activity_id = PInt 1,
      primary_attribute_name = PStr ''Webpage ID''\<rparr>"

definition activities_state :: state where
  "activities_state =
     \<lparr>bookmarks = [(''activities_1'', [(''activityDate'', PTime 0)])],
      currently_syncing = PStr ''activities_1''\<rparr>"

definition ten_days_env :: env where
  "ten_days_env = sample_env\<lparr>clock := (\<lambda>n. 864000000000)\<rparr>"

text \<open>
  A campaigns stream, and a service that answers its requests with two pages: the first
  holds one row and the token \<^verbatim>\<open>T1\<close>, the second is empty and carries no token.
\<close>

definition campaigns_stream :: stream where
  "campaigns_stream =
     \<lparr>tap_stream_id = ''campaigns'',
      replication_key = ''updatedAt'',
      key_properties = [''id''],
      selected = PBool True,
      properties =
        [(''id'', [(''type'', PStr ''integer''), (''inclusion'', PStr ''automatic'')]),
         (''updatedAt'', [(''type'', PStr ''string''), (''format'', PStr ''date-time''),
                          (''inclusion'', PStr ''automatic'')])],
      activity_id = PNone,
      primary_attribute_name = PNone\<rparr>"

definition campaigns_state :: state where
  "campaigns_state =
     \<lparr>bookmarks = [(''campaigns'', [(''updatedAt'', PTime 0)])],
      currently_syncing = PStr ''campaigns''\<rparr>"

definition first_page :: response where
  "first_page =
     \<lparr>resp_result = [[(''id'', PInt 7), (''updatedAt'', PTime 5)]],
      resp_warnings = [],
      resp_next_page_token = Some (PStr ''T1'')\<rparr>"

definition two_pages :: "nat \<Rightarrow> response" where
  "two_pages i = (if i = 0 then first_page else last_page)"

definition two_pages_env :: env where
  "two_pages_env =
     sample_env\<lparr>clock := (\<lambda>n. 1000000),
                client_request := (\<lambda>n endpoint endpoint_name params. Inr (two_pages (n - 1)))\<rparr>"



text \<open>
  A state left by a run that stopped in its second window: the cursor stands at the
  epoch and the bookmarked export, still available, ends at day 45; the clock stands at
  day 46.
\<close>

definition stalled_state :: state where
  "stalled_state =
     \<lparr>bookmarks = [(''leads'', [(''updatedAt'', PTime 0), (''export_id'', PStr ''old''),
                                (''export_end'', PTime 3888000000000)])],
      currently_syncing = PStr ''leads''\<rparr>"

definition day46_env :: env where
  "day46_env =
     sample_env\<lparr>clock := (\<lambda>n. 3974400000000),
                client_export_available := (\<lambda>n kind export_id. Inr (export_id = PStr ''old''))\<rparr>"




text \<open>
  A leads run without corona, the bookmark at the epoch and the clock at day 40: the
  export of the first window (streamed at the call number 5) holds one lead updated one
  second after the epoch, the export of the second holds no row.
\<close>

definition epoch_state :: state where
  "epoch_state =
     \<lparr>bookmarks = [(''leads'', [(''updatedAt'', PTime 0)])],
      currently_syncing = PStr ''leads''\<rparr>"

definition day40_env :: env where
  "day40_env =
     sample_env\<lparr>clock := (\<lambda>n. 3456000000000),
                client_stream_export :=
                  (\<lambda>n kind export_id.
                     Inr (if n = 5 then [[(''id'', PInt 7), (''updatedAt'', PTime 1000000)]]
                          else []))\<rparr>"

section \<open>Properties\<close>

subsection \<open>Bookmark store\<close>

lemma get_write_bookmark:
  "get_bookmark (write_bookmark st sid k v) sid' k' =
     (if sid' = sid \<and> k' = k then v else get_bookmark st sid' k')"
  by (auto simp: get_bookmark_def write_bookmark_def dict_get_def update_conv'
           split: option.splits)

lemma currently_syncing_write_bookmark:
  "currently_syncing (write_bookmark st sid k v) = currently_syncing st"
  by (simp add: write_bookmark_def)

lemma update_state_with_export_info_events:
  "events (fst (update_state_with_export_info w st stream b i e)) =
     events w @ [WriteState (snd (update_state_with_export_info w st stream b i e))]"
  "tick (fst (update_state_with_export_info w st stream b i e)) = tick w"
  by (simp_all add: update_state_with_export_info_def write_state_def emit_def Let_def)

lemma update_state_with_export_info_eq:
  "(update_state_with_export_info w st stream b i e = (w', st')) =
     (st' = export_info_state st stream b i e \<and> w' = write_state w st')"
  by (auto simp: update_state_with_export_info_def Let_def)

subsection \<open>Value formatter\<close>



lemma find_declares:
  "find (declares schema) [KTimestamp, KInteger, KString, KNumber, KBoolean] =
     (if declares schema KTimestamp then Some KTimestamp
      else if declares schema KInteger then Some KInteger
      else if declares schema KString then Some KString
      else if declares schema KNumber then Some KNumber
      else if declares schema KBoolean then Some KBoolean
      else None)"
  by simp

text \<open>
  C8, as the code has it.  For a schema with the key \<^verbatim>\<open>type\<close> and a raw value that
  is not null-equivalent, \<open>format_value\<close> parses by the first declared type that matches
  in the order timestamp (format \<^verbatim>\<open>date-time\<close>), integer, string, number, boolean;
  boolean parsing returns a boolean as it is and a string by comparing its lowercase
  with \<^verbatim>\<open>true\<close>; when no type matches, the value is returned unchanged.
\<close>

theorem format_value_priority:
  assumes "map_of schema ''type'' \<noteq> None"
      and "v \<noteq> PNone" and "v \<noteq> PStr ''''" and "v \<noteq> PStr ''null''"
  shows "format_value E v schema = format_by_priority E v schema"
proof -
  from assms(1) obtain ty where ty: "map_of schema ''type'' = Some ty" by auto
  have dt: "declared_types schema = type_list ty"
    by (simp add: declared_types_def dict_get_def ty)
  have bool: "(case v of PBool b \<Rightarrow> Inr v | PStr s \<Rightarrow> Inr (PBool (str_lower s = ''true''))
                | PTime t \<Rightarrow> Inr (PBool False) | _ \<Rightarrow> Inl AttributeError)
              = parse_as E KBoolean v"
    by (cases v) simp_all
  show ?thesis
    unfolding format_by_priority_def find_declares
    using assms(2-4)
    by (simp add: format_value_def dict_item_def ty Let_def dt[symmetric] bool
             del: parse_as.simps(5))
qed

theorem format_value_priority_witness:
  "map_of [(''type'', PList [PStr ''boolean'', PStr ''null''])] ''type'' \<noteq> None
   \<and> PStr ''TRUE'' \<noteq> PNone \<and> PStr ''TRUE'' \<noteq> PStr '''' \<and> PStr ''TRUE'' \<noteq> PStr ''null''
   \<and> format_value sample_env (PStr ''TRUE'') [(''type'', PList [PStr ''boolean'', PStr ''null''])]
       = Inr (PBool True)
   \<and> format_by_priority sample_env (PStr ''TRUE'')
        [(''type'', PList [PStr ''boolean'', PStr ''null''])] = Inr (PBool True)"
  using format_value_priority
          [of "[(''type'', PList [PStr ''boolean'', PStr ''null''])]" "PStr ''TRUE''" sample_env]
  by (simp add: format_by_priority_def declared_types_def dict_get_def str_lower_def
                lower_char_def)

text \<open>
  C8 as stated fails where the type is absent: for a schema without the key
  \<^verbatim>\<open>type\<close> the subscript \<^verbatim>\<open>schema["type"]\<close> raises KeyError, and the value is not
  returned.
\<close>

theorem format_value_absent_type_counterexample:
  "format_value sample_env (PStr ''x'') [(''selected'', PBool True)] = Inl (KeyError ''type'')"
  by (simp add: format_value_def dict_item_def)

subsection \<open>Waiting for an export\<close>

text \<open>
  C4.  When the client reports the export as failed, \<open>wait_for_export\<close> calls the
  client once, writes one state and raises ExportFailed.  In the state written,
  \<^verbatim>\<open>export_id\<close> and \<^verbatim>\<open>export_end\<close> of the stream are None, and every other
  bookmark (the replication cursor among them) and the currently-syncing marker are
  as they were.
\<close>

theorem wait_for_export_failed:
  assumes "client_wait_for_export E (tick w)
             (if tap_stream_id stream \<noteq> ''leads'' then ''activities'' else ''leads'') export_id
           = Inl ExportFailed"
  shows "\<exists>st'. snd (wait_for_export E w st stream export_id) = Inl ExportFailed
         \<and> tick (fst (wait_for_export E w st stream export_id)) = Suc (tick w)
         \<and> events (fst (wait_for_export E w st stream export_id)) =
             events w @ [CallWaitForExport
                (if tap_stream_id stream \<noteq> ''leads'' then ''activities'' else ''leads'') export_id,
                WriteState st']
         \<and> get_bookmark st' (tap_stream_id stream) ''export_id'' = PNone
         \<and> get_bookmark st' (tap_stream_id stream) ''export_end'' = PNone
         \<and> currently_syncing st' = currently_syncing st
         \<and> (\<forall>sid k. \<not> (sid = tap_stream_id stream \<and> k \<in> {''export_id'', ''export_end''})
               \<longrightarrow> get_bookmark st' sid k = get_bookmark st sid k)"
proof -
  let ?st' = "write_bookmark (write_bookmark st (tap_stream_id stream) ''export_id'' PNone)
                (tap_stream_id stream) ''export_end'' PNone"
  have r: "wait_for_export E w st stream export_id =
          (write_state (call w (CallWaitForExport
             (if tap_stream_id stream \<noteq> ''leads'' then ''activities'' else ''leads'') export_id))
             ?st',
           Inl ExportFailed)"
    using assms
    by (simp add: wait_for_export_def client_wait_def update_state_with_export_info_def
          export_info_state_def Let_def)
  show ?thesis
    by (rule exI[of _ ?st'])
       (simp add: r write_state_def call_def emit_def get_write_bookmark
                  currently_syncing_write_bookmark)
qed

theorem wait_for_export_failed_witness:
  "client_wait_for_export failing_env (tick world0)
       (if tap_stream_id leads_stream \<noteq> ''leads'' then ''activities'' else ''leads'') (PStr ''job'')
     = Inl ExportFailed
   \<and> snd (wait_for_export failing_env world0 state_with_export leads_stream (PStr ''job''))
       = Inl ExportFailed
   \<and> events (fst (wait_for_export failing_env world0 state_with_export leads_stream (PStr ''job'')))
       = [CallWaitForExport ''leads'' (PStr ''job''),
          WriteState \<lparr>bookmarks = [(''leads'', [(''updatedAt'', PTime 0), (''export_id'', PNone),
                                                (''export_end'', PNone)])],
                      currently_syncing = PStr ''leads''\<rparr>]"
  using wait_for_export_failed [of failing_env world0 leads_stream "PStr ''job''" state_with_export]
  by (simp add: failing_env_def sample_env_def world0_def leads_stream_def state_with_export_def
        wait_for_export_def client_wait_def call_def update_state_with_export_info_def
        export_info_state_def write_state_def emit_def write_bookmark_def Let_def)

subsection \<open>Token-paginated sync\<close>

lemma raw_append [simp]: "requests_and_writes (a @ b) = requests_and_writes a @ requests_and_writes b"
  by (simp add: requests_and_writes_def)

lemma raw_Nil [simp]: "requests_and_writes [] = []"
  by (simp add: requests_and_writes_def)

lemma raw_Cons [simp]: "requests_and_writes (e # es) = io_of e @ requests_and_writes es"
  by (simp add: requests_and_writes_def)

lemma page_rows_ok:
  "list_all (row_ok E stream key start_date) rows \<Longrightarrow>
   \<exists>n. snd (page_rows E stream sid key start_date rows w rc) = Inr n
     \<and> tick (fst (page_rows E stream sid key start_date rows w rc)) = tick w
     \<and> requests_and_writes (events (fst (page_rows E stream sid key start_date rows w rc)))
         = requests_and_writes (events w)"
proof (induction rows arbitrary: w rc)
  case Nil
  then show ?case by simp
next
  case (Cons row rows)
  from Cons.prems have rest: "list_all (row_ok E stream key start_date) rows" by simp
  from Cons.prems obtain r u b where
    f: "format_values E stream row = Inr r" and
    d: "dict_item r key = Inr u" and
    g: "py_ge E u start_date = Inr b"
    by (auto simp: row_ok_def split: sum.splits)
  show ?case
    using Cons.IH [OF rest, of "write_record w sid (PDict r)" "rc + 1"]
          Cons.IH [OF rest, of w rc]
    by (simp add: f d g write_record_def emit_def)
qed

lemma paginated_loop_pages:
  assumes "\<And>i params. i \<le> k \<Longrightarrow>
             client_request E (tick w + i) (paginated_endpoint stream) (tap_stream_id stream) params
               = Inr (page i)"
      and "\<And>i. i < k \<Longrightarrow> resp_next_page_token (page i) \<noteq> None"
      and "resp_next_page_token (page k) = None"
      and "\<And>i. i \<le> k \<Longrightarrow>
             list_all (row_ok E stream (replication_key stream) start_date) (resp_result (page i))"
      and "k < fuel"
  shows "\<exists>st' n. snd (paginated_loop fuel E stream start_date w st params rc) = Ok (st', n)
       \<and> (\<forall>sid key. \<not> (sid = tap_stream_id stream \<and> key = ''next_page_token'')
            \<longrightarrow> get_bookmark st' sid key = get_bookmark st sid key)
       \<and> currently_syncing st' = currently_syncing st
       \<and> requests_and_writes (events (fst (paginated_loop fuel E stream start_date w st params rc)))
           = requests_and_writes (events w)
             @ paged_trace stream st params (map (\<lambda>i. the (resp_next_page_token (page i))) [0..<k])"
  using assms
proof (induction k arbitrary: fuel w st params rc page)
  case 0
  then obtain f where fuel: "fuel = Suc f" by (cases fuel) auto
  have r: "client_request E (tick w) (paginated_endpoint stream) (tap_stream_id stream) params = Inr (page 0)"
    using "0.prems"(1) [of 0 params] by simp
  have rows: "list_all (row_ok E stream (replication_key stream) start_date) (resp_result (page 0))"
    using "0.prems"(4) [of 0] by simp
  let ?w1 = "call w (CallRequest (paginated_endpoint stream) (tap_stream_id stream) params)"
  let ?pr = "page_rows E stream (tap_stream_id stream) (replication_key stream) start_date
            (resp_result (page 0)) ?w1 rc"
  obtain n where n:
    "snd ?pr = Inr n" "tick (fst ?pr) = tick ?w1"
    "requests_and_writes (events (fst ?pr)) = requests_and_writes (events ?w1)"
    using page_rows_ok [OF rows] by blast
  show ?case
    using n "0.prems"(3)
    by (simp add: fuel request_def r split_beta call_def)
next
  case (Suc k)
  then obtain f where fuel: "fuel = Suc f" and f: "k < f" by (cases fuel) auto
  have r: "client_request E (tick w) (paginated_endpoint stream) (tap_stream_id stream) params = Inr (page 0)"
    using Suc.prems(1) [of 0 params] by simp
  have rows: "list_all (row_ok E stream (replication_key stream) start_date) (resp_result (page 0))"
    using Suc.prems(4) [of 0] by simp
  obtain token where token: "resp_next_page_token (page 0) = Some token"
    using Suc.prems(2) [of 0] by auto
  let ?w1 = "call w (CallRequest (paginated_endpoint stream) (tap_stream_id stream) params)"
  let ?pr = "page_rows E stream (tap_stream_id stream) (replication_key stream) start_date
            (resp_result (page 0)) ?w1 rc"
  obtain n where n:
    "snd ?pr = Inr n" "tick (fst ?pr) = tick ?w1"
    "requests_and_writes (events (fst ?pr)) = requests_and_writes (events ?w1)"
    using page_rows_ok [OF rows] by blast
  let ?st1 = "write_bookmark st (tap_stream_id stream) ''next_page_token'' token"
  let ?w2 = "write_state (fst ?pr) ?st1"
  let ?params1 = "AList.update ''nextPageToken'' token params"
  have step: "paginated_loop fuel E stream start_date w st params rc =
              paginated_loop f E stream start_date ?w2 ?st1 ?params1 n"
    using n(1)
    by (simp add: fuel request_def r token Let_def split_beta)
  have tick2: "tick ?w2 = Suc (tick w)"
    using n(2) by (simp add: write_state_def emit_def call_def)
  have IH: "\<exists>st' m. snd (paginated_loop f E stream start_date ?w2 ?st1 ?params1 n) = Ok (st', m)
       \<and> (\<forall>sid key. \<not> (sid = tap_stream_id stream \<and> key = ''next_page_token'')
            \<longrightarrow> get_bookmark st' sid key = get_bookmark ?st1 sid key)
       \<and> currently_syncing st' = currently_syncing ?st1
       \<and> requests_and_writes (events (fst (paginated_loop f E stream start_date ?w2 ?st1 ?params1 n)))
           = requests_and_writes (events ?w2)
             @ paged_trace stream ?st1 ?params1
                 (map (\<lambda>i. the (resp_next_page_token ((\<lambda>i. page (Suc i)) i))) [0..<k])"
  proof (rule Suc.IH)
    show "\<And>i params. i \<le> k \<Longrightarrow>
             client_request E (tick ?w2 + i) (paginated_endpoint stream) (tap_stream_id stream) params
               = Inr (page (Suc i))"
    proof -
      fix i params
      assume "i \<le> k"
      then show "client_request E (tick ?w2 + i) (paginated_endpoint stream)
                   (tap_stream_id stream) params = Inr (page (Suc i))"
        using Suc.prems(1) [of "Suc i" params] by (simp add: tick2)
    qed
    show "\<And>i. i < k \<Longrightarrow> resp_next_page_token (page (Suc i)) \<noteq> None"
      using Suc.prems(2) by simp
    show "resp_next_page_token (page (Suc k)) = None"
      using Suc.prems(3) by simp
    show "\<And>i. i \<le> k \<Longrightarrow>
             list_all (row_ok E stream (replication_key stream) start_date) (resp_result (page (Suc i)))"
      using Suc.prems(4) by simp
    show "k < f" by (rule f)
  qed
  have tokens: "map (\<lambda>i. the (resp_next_page_token (page i))) [0..<Suc k]
                = token # map (\<lambda>i. the (resp_next_page_token (page (Suc i)))) [0..<k]"
  proof -
    have "[0..<Suc k] = 0 # map Suc [0..<k]"
      by (simp add: upt_conv_Cons map_Suc_upt del: upt_Suc)
    then show ?thesis
      by (simp only: list.map map_map comp_def token option.sel)
  qed
  from IH obtain st' m where
    res: "snd (paginated_loop f E stream start_date ?w2 ?st1 ?params1 n) = Ok (st', m)" and
    same: "\<forall>sid key. \<not> (sid = tap_stream_id stream \<and> key = ''next_page_token'')
            \<longrightarrow> get_bookmark st' sid key = get_bookmark ?st1 sid key" and
    cs: "currently_syncing st' = currently_syncing ?st1" and
    tr: "requests_and_writes (events (fst (paginated_loop f E stream start_date ?w2 ?st1 ?params1 n)))
           = requests_and_writes (events ?w2)
             @ paged_trace stream ?st1 ?params1
                 (map (\<lambda>i. the (resp_next_page_token (page (Suc i)))) [0..<k])"
    by blast
  show ?case
    unfolding step tokens
    using res same cs tr n(3)
    by (simp add: get_write_bookmark currently_syncing_write_bookmark write_state_def emit_def call_def)
qed



text \<open>
  C5.  Let the service answer the requests of a run with the pages \<open>page 0\<close>, ...,
  \<open>page k\<close>, of which all but the last carry a next-page token, let no row raise an
  exception, and let the fuel allow \<open>k + 1\<close> passes.  Then \<open>sync_paginated\<close> returns;
  its requests and state writes are, in this order: the first request, with the
  persisted token when the bookmark holds one; for each page that carries a token, a
  state write that stores the token, then the request that sends it; and a last state
  write, in which the token is None and the replication cursor is the time read before
  the first request.
\<close>

theorem sync_paginated_pages:
  assumes "\<And>i params. i \<le> k \<Longrightarrow>
             client_request E (Suc (tick w) + i) (paginated_endpoint stream) (tap_stream_id stream)
               params = Inr (page i)"
      and "\<And>i. i < k \<Longrightarrow> resp_next_page_token (page i) \<noteq> None"
      and "resp_next_page_token (page k) = None"
      and "\<And>i. i \<le> k \<Longrightarrow>
             list_all (row_ok E stream (replication_key stream)
                         (get_bookmark st (tap_stream_id stream) (replication_key stream)))
               (resp_result (page i))"
      and "k < fuel"
      and "replication_key stream \<noteq> ''next_page_token''"
  shows "\<exists>st' n. snd (sync_paginated fuel E w st stream) = Ok (st', n)
       \<and> get_bookmark st' (tap_stream_id stream) ''next_page_token'' = PNone
       \<and> get_bookmark st' (tap_stream_id stream) (replication_key stream)
           = PTime (clock E (tick w))
       \<and> requests_and_writes (events (fst (sync_paginated fuel E w st stream)))
           = requests_and_writes (events w)
             @ paged_trace stream st (first_params st stream)
                 (map (\<lambda>i. the (resp_next_page_token (page i))) [0..<k])
             @ [WriteState st']"
proof -
  let ?sid = "tap_stream_id stream"
  let ?start = "get_bookmark st ?sid (replication_key stream)"
  let ?w1 = "w\<lparr>events := events w @ [WriteSchema ?sid], tick := Suc (tick w)\<rparr>"
  let ?params = "first_params st stream"
  let ?loop = "paginated_loop fuel E stream ?start ?w1 st ?params 0"
  have w1: "tick ?w1 = Suc (tick w)" "events ?w1 = events w @ [WriteSchema ?sid]"
    by simp_all
  have "\<exists>st' n. snd ?loop = Ok (st', n)
       \<and> (\<forall>sid key. \<not> (sid = ?sid \<and> key = ''next_page_token'')
            \<longrightarrow> get_bookmark st' sid key = get_bookmark st sid key)
       \<and> currently_syncing st' = currently_syncing st
       \<and> requests_and_writes (events (fst ?loop))
           = requests_and_writes (events ?w1)
             @ paged_trace stream st ?params (map (\<lambda>i. the (resp_next_page_token (page i))) [0..<k])"
    by (rule paginated_loop_pages) (use assms in simp_all)
  then obtain st2 n where
    res: "snd ?loop = Ok (st2, n)" and
    tr: "requests_and_writes (events (fst ?loop))
           = requests_and_writes (events ?w1)
             @ paged_trace stream st ?params (map (\<lambda>i. the (resp_next_page_token (page i))) [0..<k])"
    by blast
  have w1eq: "utcnow E (write_schema w ?sid) = (?w1, clock E (tick w))"
    by (simp add: utcnow_def write_schema_def emit_def)
  have params_eq:
    "(if truthy (get_bookmark st ?sid ''next_page_token'')
      then AList.update ''nextPageToken'' (get_bookmark st ?sid ''next_page_token'')
             [(''batchSize'', PInt 300)]
      else [(''batchSize'', PInt 300)]) = ?params"
    by (simp add: first_params_def)
  have run: "sync_paginated fuel E w st stream =
     (write_state (fst ?loop)
        (write_bookmark (write_bookmark st2 ?sid ''next_page_token'' PNone) ?sid
           (replication_key stream) (PTime (clock E (tick w)))),
      Ok (write_bookmark (write_bookmark st2 ?sid ''next_page_token'' PNone) ?sid
           (replication_key stream) (PTime (clock E (tick w))), n))"
    using res
    by (simp add: sync_paginated_def Let_def w1eq params_eq split_beta)
  show ?thesis
    unfolding run
    using tr assms(6)
    by (simp add: get_write_bookmark write_state_def emit_def)
qed

theorem sync_paginated_pages_witness:
  "\<exists>st' n. snd (sync_paginated 2 two_pages_env world0 campaigns_state campaigns_stream) = Ok (st', n)
       \<and> get_bookmark st' ''campaigns'' ''next_page_token'' = PNone
       \<and> get_bookmark st' ''campaigns'' ''updatedAt'' = PTime 1000000
       \<and> requests_and_writes
            (events (fst (sync_paginated 2 two_pages_env world0 campaigns_state campaigns_stream)))
           = [CallRequest ''rest/v1/campaigns.json'' ''campaigns'' [(''batchSize'', PInt 300)],
              WriteState \<lparr>bookmarks = [(''campaigns'', [(''updatedAt'', PTime 0),
                                                         (''next_page_token'', PStr ''T1'')])],
                          currently_syncing = PStr ''campaigns''\<rparr>,
              CallRequest ''rest/v1/campaigns.json'' ''campaigns''
                [(''batchSize'', PInt 300), (''nextPageToken'', PStr ''T1'')],
              WriteState st']"
proof -
  have rows: "\<And>i. i \<le> 1 \<Longrightarrow>
             list_all (row_ok two_pages_env campaigns_stream (replication_key campaigns_stream)
                         (get_bookmark campaigns_state (tap_stream_id campaigns_stream)
                            (replication_key campaigns_stream)))
               (resp_result (two_pages i))"
    by (simp add: two_pages_def first_page_def last_page_def row_ok_def format_values_def
          format_value_def dict_item_def dict_get_def campaigns_stream_def campaigns_state_def
          get_bookmark_def two_pages_env_def sample_env_def sample_int_def sample_ge_def Let_def)
  show ?thesis
    using sync_paginated_pages [of 1 two_pages_env world0 campaigns_stream two_pages
            campaigns_state 2, OF _ _ _ rows]
    by (simp add: two_pages_def first_page_def last_page_def two_pages_env_def sample_env_def
          world0_def campaigns_stream_def campaigns_state_def paginated_endpoint_def
          first_params_def get_bookmark_def dict_get_def write_bookmark_def)
qed

subsection \<open>Activities\<close>

lemmas run_defs =
  export_available_def create_export_def client_wait_def stream_rows_def call_def emit_def
  utcnow_def write_schema_def write_state_def write_record_def get_export_end_def
  update_state_with_export_info_def export_info_state_def wait_for_export_def
  get_bookmark_def write_bookmark_def dict_get_def dict_item_def
  days_def whole_seconds_def MAX_EXPORT_DAYS_def ATTRIBUTION_WINDOW_DAYS_def Let_def

text \<open>
  C2 fails on the code.  With the bookmark at the epoch and the clock at ten days, the
  only window is \<open>[0, 10 days)\<close>; the export has no rows; the state written after the
  window holds the bookmark 0, the start of the window, and not its end.
\<close>

theorem sync_activities_bookmark_is_window_start:
  "sync_activities 1 ten_days_env world0 activities_state activities_stream =
     (\<lparr>tick = 7,
       events =
         [WriteSchema ''activities_1'',
          CallExportAvailable ''activities'' PNone,
          CallCreateExport ''activities'' ACTIVITY_FIELDS
            [(''createdAt'', PDict [(''startAt'', PTime 0), (''endAt'', PTime 864000000000)]),
             (''activityTypeIds'', PList [PInt 1])],
          WriteState \<lparr>bookmarks = [(''activities_1'',
                        [(''activityDate'', PTime 0), (''export_id'', PStr ''job''),
                         (''export_end'', PTime 864000000000)])],
                      currently_syncing = PStr ''activities_1''\<rparr>,
          Window 0 864000000000,
          CallWaitForExport ''activities'' (PStr ''job''),
          CallStreamExport ''activites'' (PStr ''job''),
          WriteState \<lparr>bookmarks = [(''activities_1'',
                        [(''activityDate'', PTime 0), (''export_id'', PNone),
                         (''export_end'', PNone)])],
                      currently_syncing = PStr ''activities_1''\<rparr>]\<rparr>,
      Ok (\<lparr>bookmarks = [(''activities_1'',
                        [(''activityDate'', PTime 0), (''export_id'', PNone),
                         (''export_end'', PNone)])],
           currently_syncing = PStr ''activities_1''\<rparr>, 0))"
  by (simp add: sync_activities_def activities_window_def
        get_or_create_export_for_activities_def ACTIVITY_FIELDS_def BASE_ACTIVITY_FIELDS_def
        run_defs ten_days_env_def sample_env_def world0_def activities_state_def
        activities_stream_def)

subsection \<open>Orchestrator\<close>






subsection \<open>Events added by the windowed drivers\<close>

lemma writes_append [simp]: "writes (a @ b) = writes a @ writes b"
  by (simp add: writes_def)

lemma writes_Nil [simp]: "writes [] = []"
  by (simp add: writes_def)

lemma writes_Cons [simp]: "writes (e # es) = state_of e @ writes es"
  by (simp add: writes_def)

lemma windows_append [simp]: "windows (a @ b) = windows a @ windows b"
  by (simp add: windows_def)

lemma windows_Nil [simp]: "windows [] = []"
  by (simp add: windows_def)

lemma windows_Cons [simp]: "windows (e # es) = window_of e @ windows es"
  by (simp add: windows_def)

lemma adds_refl [simp]: "adds Q w w"
  by (simp add: adds_def)

lemma adds_same_events: "events w' = events w \<Longrightarrow> adds Q w w'"
  by (simp add: adds_def)

lemma adds_trans: "adds Q w w1 \<Longrightarrow> adds Q w1 w2 \<Longrightarrow> adds Q w w2"
  unfolding adds_def
proof -
  assume "\<exists>D. events w1 = events w @ D \<and> (\<forall>s\<in>set (writes D). Q s)"
     and "\<exists>D. events w2 = events w1 @ D \<and> (\<forall>s\<in>set (writes D). Q s)"
  then obtain D1 D2 where
    "events w1 = events w @ D1" "\<forall>s\<in>set (writes D1). Q s"
    "events w2 = events w1 @ D2" "\<forall>s\<in>set (writes D2). Q s"
    by blast
  then have "events w2 = events w @ (D1 @ D2) \<and> (\<forall>s\<in>set (writes (D1 @ D2)). Q s)"
    by auto
  then show "\<exists>D. events w2 = events w @ D \<and> (\<forall>s\<in>set (writes D). Q s)" by blast
qed

lemma adds_emit: "(\<And>s. e = WriteState s \<Longrightarrow> Q s) \<Longrightarrow> adds Q w (emit w e)"
  by (cases e) (auto simp: adds_def emit_def)

lemma adds_call: "(\<And>s. e \<noteq> WriteState s) \<Longrightarrow> adds Q w (call w e)"
  by (cases e) (auto simp: adds_def call_def)

lemma adds_write_state: "Q s \<Longrightarrow> adds Q w (write_state w s)"
  unfolding write_state_def by (rule adds_emit) simp

lemma adds_write_record: "adds Q w (write_record w sid r)"
  unfolding write_record_def by (rule adds_emit) simp

lemma get_export_end_eq:
  "get_export_end E w s =
     (w\<lparr>tick := (if s + days MAX_EXPORT_DAYS \<ge> clock E (tick w) then Suc (Suc (tick w))
                   else Suc (tick w))\<rparr>, fresh_end E (tick w) s)"
  by (simp add: get_export_end_def utcnow_def fresh_end_def Let_def)

lemmas leads_export_defs =
  get_or_create_export_for_leads_def export_available_def create_export_def call_def
  get_export_end_eq update_state_with_export_info_def write_state_def emit_def Let_def

lemma get_or_create_leads_adds:
  assumes "\<And>i e. Q (export_info_state st stream PNone (PStr i) (PTime e))"
  shows "adds Q w (fst (get_or_create_export_for_leads E w st stream es))"
  using assms by (simp add: leads_export_defs adds_def split: sum.splits)

lemma get_or_create_leads_windows:
  "windows (events (fst (get_or_create_export_for_leads E w st stream es))) = windows (events w)"
  by (simp add: leads_export_defs split: sum.splits)

lemma get_or_create_leads_tick:
  "tick w < tick (fst (get_or_create_export_for_leads E w st stream es))"
  by (simp add: leads_export_defs split: sum.splits)

lemma get_or_create_leads_result:
  assumes "snd (get_or_create_export_for_leads E w st stream es) = Inr (i, ee, st')"
  shows "if reused_export E (tick w) st ''leads'' ''leads''
         then get_bookmark st ''leads'' ''export_end'' = PTime ee \<and> st' = st
              \<and> i = get_bookmark st ''leads'' ''export_id''
         else ee = fresh_end E (Suc (tick w)) es
              \<and> (\<exists>j. i = PStr j \<and> st' = export_info_state st stream PNone (PStr j) (PTime ee))"
  using assms
  by (cases "get_bookmark st ''leads'' ''export_end''")
     (auto simp: leads_export_defs reused_export_def split: sum.splits if_splits)


lemmas wait_defs =
  wait_for_export_def client_wait_def call_def update_state_with_export_info_def
  write_state_def emit_def Let_def

lemma wait_for_export_adds:
  assumes "Q (export_info_state st stream PNone PNone PNone)"
  shows "adds Q w (fst (wait_for_export E w st stream i))"
  using assms by (simp add: wait_defs adds_def split: sum.splits)

lemma wait_for_export_windows:
  "windows (events (fst (wait_for_export E w st stream i))) = windows (events w)"
  by (simp add: wait_defs split: sum.splits)

lemma wait_for_export_tick:
  "tick w < tick (fst (wait_for_export E w st stream i))"
  by (simp add: wait_defs split: sum.splits)

lemma wait_for_export_result:
  "snd (wait_for_export E w st stream i) = Inr st' \<Longrightarrow> st' = st"
  by (simp add: wait_defs split: sum.splits if_splits)

lemma stream_rows_adds: "adds Q w (fst (stream_rows E w kind i))"
  by (simp add: stream_rows_def adds_call)

lemma stream_rows_windows:
  "windows (events (fst (stream_rows E w kind i))) = windows (events w)"
  by (simp add: stream_rows_def call_def)

lemma stream_rows_tick: "tick w < tick (fst (stream_rows E w kind i))"
  by (simp add: stream_rows_def call_def)

lemma quiet_refl [simp]: "quiet w w"
  by (simp add: quiet_def)

lemma quiet_trans: "quiet w w1 \<Longrightarrow> quiet w1 w2 \<Longrightarrow> quiet w w2"
  by (auto simp: quiet_def)

lemma quiet_write_record: "quiet w (write_record w sid r)"
  by (simp add: quiet_def write_record_def emit_def)

lemma quiet_adds: "quiet w w' \<Longrightarrow> adds Q w w'"
  by (auto simp: quiet_def adds_def)

lemma quiet_windows: "quiet w w' \<Longrightarrow> windows (events w') = windows (events w)"
  by (auto simp: quiet_def)

lemma leads_rows_quiet: "quiet w (fst (leads_rows E stream ib ee rows w mb rc))"
proof (induction rows arbitrary: w mb rc)
  case Nil
  show ?case by simp
next
  case (Cons row rows)
  show ?case
    by (auto split: sum.splits intro: Cons.IH quiet_trans [OF quiet_write_record])
qed

lemma leads_rows_tick: "tick (fst (leads_rows E stream ib ee rows w mb rc)) = tick w"
proof (induction rows arbitrary: w mb rc)
  case Nil
  show ?case by simp
next
  case (Cons row rows)
  show ?case
    by (auto simp: Cons.IH write_record_def emit_def split: sum.splits)
qed

lemma leads_window_unfold:
  "leads_window E stream ib w st es mb rc =
     (let g = get_or_create_export_for_leads E w st stream es in
      case snd g of
        Inl e \<Rightarrow> (fst g, Inl e)
      | Inr (i, ee, st1) \<Rightarrow>
          (let ww = wait_for_export E (emit (fst g) (Window es ee)) st1 stream i in
           case snd ww of
             Inl e \<Rightarrow> (fst ww, Inl e)
           | Inr st2 \<Rightarrow>
               (let sr = stream_rows E (fst ww) ''leads'' i in
                case snd sr of
                  Inl e \<Rightarrow> (fst sr, Inl e)
                | Inr rows \<Rightarrow>
                    (let lr = leads_rows E stream ib ee rows (fst sr) mb rc in
                     case snd lr of
                       Inl e \<Rightarrow> (fst lr, Inl e)
                     | Inr (mb', rc') \<Rightarrow>
                         (write_state (fst lr) (export_info_state st2 stream (PTime mb') PNone PNone),
                          Inr (export_info_state st2 stream (PTime mb') PNone PNone, ee, mb', rc'))))))"
  by (simp add: leads_window_def update_state_with_export_info_def Let_def split_beta
           split: sum.splits prod.splits)


lemma leads_rows_windows [simp]:
  "windows (events (fst (leads_rows E stream ib ee rows w mb rc))) = windows (events w)"
  by (rule quiet_windows [OF leads_rows_quiet])

lemma leads_window_windows:
  "windows (events (fst (leads_window E stream ib w st es mb rc))) =
     windows (events w)
     @ (case snd (get_or_create_export_for_leads E w st stream es) of
          Inl e \<Rightarrow> []
        | Inr (i, ee, st1) \<Rightarrow> [(es, ee)])"
  by (simp add: leads_window_unfold Let_def wait_for_export_windows stream_rows_windows
        get_or_create_leads_windows write_state_def emit_def
      split: sum.splits prod.splits)

lemma leads_window_tick: "tick w < tick (fst (leads_window E stream ib w st es mb rc))"
proof -
  let ?g = "get_or_create_export_for_leads E w st stream es"
  have g: "tick w < tick (fst ?g)" by (rule get_or_create_leads_tick)
  have ww: "tick w < tick (fst (wait_for_export E (emit (fst ?g) (Window es ee)) st1 stream i))"
    for ee st1 i
    using wait_for_export_tick [of "emit (fst ?g) (Window es ee)" E st1 stream i] g
    by (simp add: emit_def)
  have sr: "tick w < tick (fst (stream_rows E
              (fst (wait_for_export E (emit (fst ?g) (Window es ee)) st1 stream i)) kind j))"
    for ee st1 i kind j
    using stream_rows_tick [of "fst (wait_for_export E (emit (fst ?g) (Window es ee)) st1 stream i)"
            E kind j] ww [of ee st1 i]
    by simp
  show ?thesis
    using g ww sr
    by (simp add: leads_window_unfold Let_def leads_rows_tick write_state_def emit_def
          split: sum.splits prod.splits)
qed

lemma leads_window_result:
  assumes "snd (leads_window E stream ib w st es mb rc) = Inr (st', ee, mb', rc')"
  shows "\<exists>i st1 rows w3.
           snd (get_or_create_export_for_leads E w st stream es) = Inr (i, ee, st1)
         \<and> snd (leads_rows E stream ib ee rows w3 mb rc) = Inr (mb', rc')
         \<and> st' = export_info_state st1 stream (PTime mb') PNone PNone"
  using assms
  by (auto simp: leads_window_unfold Let_def split: sum.splits prod.splits
           dest!: wait_for_export_result)

lemma leads_window_adds:
  assumes I: "I st"
    and create: "\<And>i e. I (export_info_state st stream PNone (PStr i) (PTime e))
                       \<and> Q (export_info_state st stream PNone (PStr i) (PTime e))"
    and failed: "\<And>s. I s \<Longrightarrow> Q (export_info_state s stream PNone PNone PNone)"
    and finished: "\<And>s ee rows w3 mb' rc'. I s \<Longrightarrow>
                     snd (leads_rows E stream ib ee rows w3 mb rc) = Inr (mb', rc') \<Longrightarrow>
                     Q (export_info_state s stream (PTime mb') PNone PNone)"
  shows "adds Q w (fst (leads_window E stream ib w st es mb rc))"
proof -
  let ?g = "get_or_create_export_for_leads E w st stream es"
  have g: "adds Q w (fst ?g)"
    by (rule get_or_create_leads_adds) (simp add: create)
  show ?thesis
  proof (cases "snd ?g")
    case (Inl e)
    then show ?thesis using g by (simp add: leads_window_unfold Let_def)
  next
    case (Inr t)
    obtain i ee st1 where t: "t = (i, ee, st1)" by (cases t) auto
    have "st1 = st \<or> (\<exists>j. st1 = export_info_state st stream PNone (PStr j) (PTime ee))"
      using get_or_create_leads_result [of E w st stream es i ee st1] Inr t
      by (auto split: if_splits)
    then have st1: "I st1" using I create by auto
    let ?w1 = "emit (fst ?g) (Window es ee)"
    have w1: "adds Q w ?w1"
      by (rule adds_trans [OF g]) (rule adds_emit, simp)
    let ?ww = "wait_for_export E ?w1 st1 stream i"
    have ww: "adds Q w (fst ?ww)"
      by (rule adds_trans [OF w1]) (rule wait_for_export_adds, rule failed, rule st1)
    show ?thesis
    proof (cases "snd ?ww")
      case (Inl e)
      then show ?thesis using ww Inr t by (simp add: leads_window_unfold Let_def)
    next
      case st2: (Inr st2)
      then have st2_eq: "st2 = st1" by (rule wait_for_export_result)
      let ?sr = "stream_rows E (fst ?ww) ''leads'' i"
      have sr: "adds Q w (fst ?sr)"
        by (rule adds_trans [OF ww]) (rule stream_rows_adds)
      show ?thesis
      proof (cases "snd ?sr")
        case (Inl e)
        then show ?thesis using sr Inr t st2 by (simp add: leads_window_unfold Let_def)
      next
        case rows: (Inr rows)
        let ?lr = "leads_rows E stream ib ee rows (fst ?sr) mb rc"
        have lr: "adds Q w (fst ?lr)"
          by (rule adds_trans [OF sr]) (rule quiet_adds, rule leads_rows_quiet)
        show ?thesis
        proof (cases "snd ?lr")
          case (Inl e)
          then show ?thesis using lr Inr t st2 rows by (simp add: leads_window_unfold Let_def)
        next
          case res: (Inr p)
          obtain mb' rc' where p: "p = (mb', rc')" by (cases p) auto
          have "Q (export_info_state st1 stream (PTime mb') PNone PNone)"
            using finished [OF st1] res p by blast
          then have "adds Q w (write_state (fst ?lr)
                       (export_info_state st1 stream (PTime mb') PNone PNone))"
            by (intro adds_trans [OF lr] adds_write_state)
          then show ?thesis
            using Inr t st2 st2_eq rows res p by (simp add: leads_window_unfold Let_def)
        qed
      qed
    qed
  qed
qed


lemma leads_loop_unfold:
  "leads_loop (Suc fuel) E stream ib js w st es mb rc =
     (if es < js then
        (let lw = leads_window E stream ib w st es mb rc in
         case snd lw of
           Inl e \<Rightarrow> (fst lw, Raise e)
         | Inr (st', ee, mb', rc') \<Rightarrow> leads_loop fuel E stream ib js (fst lw) st' ee mb' rc')
      else (w, Ok (st, rc)))"
  by (simp add: Let_def split_beta split: sum.splits prod.splits)

lemma leads_loop_adds:
  assumes I: "I st" and T: "T mb"
    and create: "\<And>s i e. I s \<Longrightarrow> I (export_info_state s stream PNone (PStr i) (PTime e))
                       \<and> Q (export_info_state s stream PNone (PStr i) (PTime e))"
    and failed: "\<And>s. I s \<Longrightarrow> Q (export_info_state s stream PNone PNone PNone)"
    and finished: "\<And>s t. I s \<Longrightarrow> T t \<Longrightarrow>
                     I (export_info_state s stream (PTime t) PNone PNone)
                     \<and> Q (export_info_state s stream (PTime t) PNone PNone)"
    and rows: "\<And>ee rows w3 mb rc mb' rc'. T mb \<Longrightarrow>
                 snd (leads_rows E stream ib ee rows w3 mb rc) = Inr (mb', rc') \<Longrightarrow> T mb'"
  shows "adds Q w (fst (leads_loop fuel E stream ib js w st es mb rc))
       \<and> (\<forall>st' n. snd (leads_loop fuel E stream ib js w st es mb rc) = Ok (st', n) \<longrightarrow> I st')"
  using I T
proof (induction fuel arbitrary: w st es mb rc)
  case 0
  then show ?case by simp
next
  case (Suc fuel)
  let ?lw = "leads_window E stream ib w st es mb rc"
  have step: "adds Q w (fst ?lw)"
  proof (rule leads_window_adds [where I = I])
    show "I st" by (rule Suc.prems)
    show "I (export_info_state st stream PNone (PStr i) (PTime e))
          \<and> Q (export_info_state st stream PNone (PStr i) (PTime e))" for i e
      using create Suc.prems(1) by blast
    show "I s \<Longrightarrow> Q (export_info_state s stream PNone PNone PNone)" for s
      by (rule failed)
    show "I s \<Longrightarrow> snd (leads_rows E stream ib ee rows w3 mb rc) = Inr (mb', rc') \<Longrightarrow>
          Q (export_info_state s stream (PTime mb') PNone PNone)" for s ee rows w3 mb' rc'
      using finished rows Suc.prems(2) by blast
  qed
  show ?case
  proof (cases "es < js")
    case False
    then show ?thesis using Suc.prems by simp
  next
    case True
    show ?thesis
    proof (cases "snd ?lw")
      case (Inl e)
      then show ?thesis
        using True step by (simp add: leads_loop_unfold Let_def del: leads_loop.simps)
    next
      case (Inr t)
      obtain st' ee mb' rc' where t: "t = (st', ee, mb', rc')" by (cases t) auto
      from leads_window_result [of E stream ib w st es mb rc st' ee mb' rc'] Inr t
      obtain i st1 rows w3 where
        g: "snd (get_or_create_export_for_leads E w st stream es) = Inr (i, ee, st1)" and
        r: "snd (leads_rows E stream ib ee rows w3 mb rc) = Inr (mb', rc')" and
        st': "st' = export_info_state st1 stream (PTime mb') PNone PNone"
        by auto
      have "st1 = st \<or> (\<exists>j. st1 = export_info_state st stream PNone (PStr j) (PTime ee))"
        using get_or_create_leads_result [OF g] by (auto split: if_splits)
      then have "I st1" using Suc.prems(1) create by auto
      moreover have T': "T mb'" using rows [OF Suc.prems(2) r] .
      ultimately have I': "I st'" using finished st' by blast
      have IH: "adds Q (fst ?lw) (fst (leads_loop fuel E stream ib js (fst ?lw) st' ee mb' rc'))
         \<and> (\<forall>st'' n. snd (leads_loop fuel E stream ib js (fst ?lw) st' ee mb' rc') = Ok (st'', n)
               \<longrightarrow> I st'')"
        by (rule Suc.IH [OF I' T'])
      show ?thesis
        using True Inr t IH adds_trans [OF step]
        by (simp add: leads_loop_unfold Let_def del: leads_loop.simps)
    qed
  qed
qed

subsection \<open>Windows of the leads sync\<close>

lemma export_id_after_window:
  assumes "replication_key stream \<noteq> ''export_id''"
  shows "get_bookmark (export_info_state s stream (PTime t) PNone PNone) (tap_stream_id stream)
           ''export_id'' = PNone"
  using assms by (simp add: export_info_state_def Let_def get_write_bookmark)

lemma chain_append:
  "chain s (ws @ [(a, b)]) = (chain s ws \<and> a = chain_end s ws)"
  by (induction s ws rule: chain.induct) auto

lemma chain_end_append [simp]: "chain_end s (ws @ [(a, b)]) = b"
  by (induction s ws rule: chain_end.induct) auto

lemma leads_loop_windows:
  assumes sid: "tap_stream_id stream = ''leads''"
      and rk: "replication_key stream \<noteq> ''export_id''"
  shows "\<exists>ws. windows (events (fst (leads_loop fuel E stream ib js w st es mb rc)))
                = windows (events w) @ ws
            \<and> chain es ws
            \<and> (\<forall>(s, e)\<in>set ws. s < js)
            \<and> (\<forall>r. snd (leads_loop fuel E stream ib js w st es mb rc) = Ok r
                   \<longrightarrow> js \<le> chain_end es ws)
            \<and> (\<forall>a b rest. ws = (a, b) # rest \<longrightarrow>
                   first_end E (tick w) st a b
                   \<and> (\<forall>(s, e)\<in>set rest. \<exists>n. tick w < n \<and> e = fresh_end E n s))"
proof (induction fuel arbitrary: w st es mb rc)
  case 0
  show ?case by (rule exI [of _ "[]"]) simp
next
  case (Suc fuel)
  let ?lw = "leads_window E stream ib w st es mb rc"
  let ?g = "get_or_create_export_for_leads E w st stream es"
  show ?case
  proof (cases "es < js")
    case False
    show ?thesis by (rule exI [of _ "[]"]) (use False in simp)
  next
    case True
    show ?thesis
    proof (cases "snd ?lw")
      case (Inl e)
      show ?thesis
      proof (cases "snd ?g")
        case g: (Inl e')
        show ?thesis
          by (rule exI [of _ "[]"])
             (use True Inl g in \<open>simp add: leads_loop_unfold Let_def leads_window_windows
                                    del: leads_loop.simps\<close>)
      next
        case g: (Inr t)
        obtain i ee st1 where t: "t = (i, ee, st1)" by (cases t) auto
        have fe: "first_end E (tick w) st es ee"
          using get_or_create_leads_result [of E w st stream es i ee st1] g t
          by (auto simp: first_end_def split: if_splits)
        show ?thesis
          by (rule exI [of _ "[(es, ee)]"])
             (use True Inl g t fe in \<open>simp add: leads_loop_unfold Let_def leads_window_windows
                                    del: leads_loop.simps\<close>)
      qed
    next
      case (Inr t)
      obtain st' ee mb' rc' where t: "t = (st', ee, mb', rc')" by (cases t) auto
      from leads_window_result [of E stream ib w st es mb rc st' ee mb' rc'] Inr t
      obtain i st1 rows w3 where
        g: "snd ?g = Inr (i, ee, st1)" and
        st': "st' = export_info_state st1 stream (PTime mb') PNone PNone"
        by auto
      have fe: "first_end E (tick w) st es ee"
        using get_or_create_leads_result [OF g]
        by (auto simp: first_end_def split: if_splits)
      have none: "get_bookmark st' ''leads'' ''export_id'' = PNone"
        using export_id_after_window [OF rk, of st1 mb'] by (simp add: st' sid)
      have win: "windows (events (fst ?lw)) = windows (events w) @ [(es, ee)]"
        by (simp add: leads_window_windows g)
      have tk: "tick w < tick (fst ?lw)" by (rule leads_window_tick)
      let ?rest = "leads_loop fuel E stream ib js (fst ?lw) st' ee mb' rc'"
      from Suc.IH [of "fst ?lw" st' ee mb' rc'] obtain ws where
        ws: "windows (events (fst ?rest)) = windows (events (fst ?lw)) @ ws" and
        ch: "chain ee ws" and
        lt: "\<forall>(s, e)\<in>set ws. s < js" and
        fin: "\<forall>r. snd ?rest = Ok r \<longrightarrow> js \<le> chain_end ee ws" and
        org: "\<forall>a b rest. ws = (a, b) # rest \<longrightarrow>
                   first_end E (tick (fst ?lw)) st' a b
                   \<and> (\<forall>(s, e)\<in>set rest. \<exists>n. tick (fst ?lw) < n \<and> e = fresh_end E n s)"
        by blast
      have fresh: "\<forall>(s, e)\<in>set ws. \<exists>n. tick w < n \<and> e = fresh_end E n s"
      proof (cases ws)
        case Nil
        then show ?thesis by simp
      next
        case (Cons p rest)
        obtain a b where p: "p = (a, b)" by (cases p) auto
        from org Cons p have
          h: "first_end E (tick (fst ?lw)) st' a b" and
          r: "\<forall>(s, e)\<in>set rest. \<exists>n. tick (fst ?lw) < n \<and> e = fresh_end E n s"
          by auto
        from h none have "b = fresh_end E (Suc (tick (fst ?lw))) a"
          by (simp add: first_end_def reused_export_def)
        then have "\<exists>n. tick w < n \<and> b = fresh_end E n a" using tk by (intro exI [of _ "Suc (tick (fst ?lw))"]) simp
        moreover have "\<forall>(s, e)\<in>set rest. \<exists>n. tick w < n \<and> e = fresh_end E n s"
        proof (clarify)
          fix s e
          assume "(s, e) \<in> set rest"
          with r obtain n where "tick (fst ?lw) < n" "e = fresh_end E n s" by blast
          with tk show "\<exists>n. tick w < n \<and> e = fresh_end E n s"
            by (intro exI [of _ n]) simp
        qed
        ultimately show ?thesis using Cons p by simp
      qed
      have eq: "leads_loop (Suc fuel) E stream ib js w st es mb rc = ?rest"
        using True Inr t by (simp add: leads_loop_unfold Let_def del: leads_loop.simps)
      show ?thesis
        unfolding eq
        by (rule exI [of _ "(es, ee) # ws"]) (use ws win ch lt fin fe fresh True in simp)
    qed
  qed
qed



lemma sync_leads_unfold:
  assumes "pendulum_parse (get_bookmark st ''leads'' (replication_key stream)) = Inr ib"
  shows "sync_leads fuel E w st stream =
           leads_loop fuel E stream ib (clock E (tick w))
             (w\<lparr>events := events w @ [WriteSchema ''leads''], tick := Suc (tick w)\<rparr>) st
             (if use_corona E then ib - days ATTRIBUTION_WINDOW_DAYS else ib) ib 0"
  using assms
  by (simp add: sync_leads_def Let_def utcnow_def write_schema_def emit_def del: leads_loop.simps)

lemma fresh_end_same_reading:
  "clock E (Suc n) = clock E n \<Longrightarrow>
   fresh_end E n s = whole_seconds (min (s + days MAX_EXPORT_DAYS) (clock E n))"
  by (simp add: fresh_end_def min_def)

lemma whole_seconds_le: "whole_seconds t \<le> t"
  by (simp add: whole_seconds_def)

lemma fresh_end_le: "fresh_end E n s \<le> max (clock E n) (clock E (Suc n))"
proof (cases "s + days MAX_EXPORT_DAYS \<ge> clock E n")
  case True
  then show ?thesis
    using whole_seconds_le [of "clock E (Suc n)"] by (simp add: fresh_end_def)
next
  case False
  then show ?thesis
    using whole_seconds_le [of "s + days MAX_EXPORT_DAYS"] by (simp add: fresh_end_def)
qed

lemma get_export_end_fresh: "snd (get_export_end E w s) = fresh_end E (tick w) s"
  by (simp add: get_export_end_eq)

subsection \<open>Windows of the activities sync\<close>

lemmas activities_export_defs =
  get_or_create_export_for_activities_def export_available_def create_export_def call_def
  get_export_end_eq update_state_with_export_info_def write_state_def emit_def Let_def

lemma get_or_create_activities_adds:
  assumes "\<And>i e. Q (export_info_state st stream PNone (PStr i) (PTime e))"
  shows "adds Q w (fst (get_or_create_export_for_activities E w st stream es))"
  using assms by (simp add: activities_export_defs adds_def split: sum.splits)

lemma get_or_create_activities_windows:
  "windows (events (fst (get_or_create_export_for_activities E w st stream es)))
     = windows (events w)"
  by (simp add: activities_export_defs split: sum.splits)

lemma get_or_create_activities_tick:
  "tick w < tick (fst (get_or_create_export_for_activities E w st stream es))"
  by (simp add: activities_export_defs split: sum.splits)

lemma get_or_create_activities_result:
  assumes "snd (get_or_create_export_for_activities E w st stream es) = Inr (i, ee, st')"
  shows "if reused_export E (tick w) st ''activities'' (tap_stream_id stream)
         then get_bookmark st (tap_stream_id stream) ''export_end'' = PTime ee \<and> st' = st
              \<and> i = get_bookmark st (tap_stream_id stream) ''export_id''
         else ee = fresh_end E (Suc (tick w)) es
              \<and> (\<exists>j. i = PStr j \<and> st' = export_info_state st stream PNone (PStr j) (PTime ee))"
  using assms
  by (cases "get_bookmark st (tap_stream_id stream) ''export_end''")
     (auto simp: activities_export_defs reused_export_def split: sum.splits if_splits)

lemma activities_rows_quiet: "quiet w (fst (activities_rows E stream rows w rc))"
proof (induction rows arbitrary: w rc)
  case Nil
  show ?case by simp
next
  case (Cons row rows)
  show ?case
    by (auto split: sum.splits intro: Cons.IH quiet_trans [OF quiet_write_record])
qed

lemma activities_rows_tick: "tick (fst (activities_rows E stream rows w rc)) = tick w"
proof (induction rows arbitrary: w rc)
  case Nil
  show ?case by simp
next
  case (Cons row rows)
  show ?case
    by (auto simp: Cons.IH write_record_def emit_def split: sum.splits)
qed

lemma activities_rows_windows [simp]:
  "windows (events (fst (activities_rows E stream rows w rc))) = windows (events w)"
  by (rule quiet_windows [OF activities_rows_quiet])

lemma activities_window_unfold:
  "activities_window E stream w st es rc =
     (let g = get_or_create_export_for_activities E w st stream es in
      case snd g of
        Inl e \<Rightarrow> (fst g, Inl e)
      | Inr (i, ee, st1) \<Rightarrow>
          (let ww = wait_for_export E (emit (fst g) (Window es ee)) st1 stream i in
           case snd ww of
             Inl e \<Rightarrow> (fst ww, Inl e)
           | Inr st2 \<Rightarrow>
               (let sr = stream_rows E (fst ww) ''activites'' i in
                case snd sr of
                  Inl e \<Rightarrow> (fst sr, Inl e)
                | Inr rows \<Rightarrow>
                    (let ar = activities_rows E stream rows (fst sr) rc in
                     case snd ar of
                       Inl e \<Rightarrow> (fst ar, Inl e)
                     | Inr rc' \<Rightarrow>
                         (write_state (fst ar) (export_info_state st2 stream (PTime es) PNone PNone),
                          Inr (export_info_state st2 stream (PTime es) PNone PNone, ee, rc'))))))"
  by (simp add: activities_window_def update_state_with_export_info_def Let_def split_beta
           split: sum.splits prod.splits)

lemma activities_window_windows:
  "windows (events (fst (activities_window E stream w st es rc))) =
     windows (events w)
     @ (case snd (get_or_create_export_for_activities E w st stream es) of
          Inl e \<Rightarrow> []
        | Inr (i, ee, st1) \<Rightarrow> [(es, ee)])"
  by (simp add: activities_window_unfold Let_def wait_for_export_windows stream_rows_windows
        get_or_create_activities_windows write_state_def emit_def
      split: sum.splits prod.splits)

lemma activities_window_tick: "tick w < tick (fst (activities_window E stream w st es rc))"
proof -
  let ?g = "get_or_create_export_for_activities E w st stream es"
  have g: "tick w < tick (fst ?g)" by (rule get_or_create_activities_tick)
  have ww: "tick w < tick (fst (wait_for_export E (emit (fst ?g) (Window es ee)) st1 stream i))"
    for ee st1 i
    using wait_for_export_tick [of "emit (fst ?g) (Window es ee)" E st1 stream i] g
    by (simp add: emit_def)
  have sr: "tick w < tick (fst (stream_rows E
              (fst (wait_for_export E (emit (fst ?g) (Window es ee)) st1 stream i)) kind j))"
    for ee st1 i kind j
    using stream_rows_tick [of "fst (wait_for_export E (emit (fst ?g) (Window es ee)) st1 stream i)"
            E kind j] ww [of ee st1 i]
    by simp
  show ?thesis
    using g ww sr
    by (simp add: activities_window_unfold Let_def activities_rows_tick write_state_def emit_def
          split: sum.splits prod.splits)
qed

lemma activities_window_result:
  assumes "snd (activities_window E stream w st es rc) = Inr (st', ee, rc')"
  shows "\<exists>i st1.
           snd (get_or_create_export_for_activities E w st stream es) = Inr (i, ee, st1)
         \<and> st' = export_info_state st1 stream (PTime es) PNone PNone"
  using assms
  by (auto simp: activities_window_unfold Let_def split: sum.splits prod.splits
           dest!: wait_for_export_result)

lemma activities_window_adds:
  assumes I: "I st"
    and create: "\<And>i e. I (export_info_state st stream PNone (PStr i) (PTime e))
                       \<and> Q (export_info_state st stream PNone (PStr i) (PTime e))"
    and failed: "\<And>s. I s \<Longrightarrow> Q (export_info_state s stream PNone PNone PNone)"
    and finished: "\<And>s. I s \<Longrightarrow> Q (export_info_state s stream (PTime es) PNone PNone)"
  shows "adds Q w (fst (activities_window E stream w st es rc))"
proof -
  let ?g = "get_or_create_export_for_activities E w st stream es"
  have g: "adds Q w (fst ?g)"
    by (rule get_or_create_activities_adds) (simp add: create)
  show ?thesis
  proof (cases "snd ?g")
    case (Inl e)
    then show ?thesis using g by (simp add: activities_window_unfold Let_def)
  next
    case (Inr t)
    obtain i ee st1 where t: "t = (i, ee, st1)" by (cases t) auto
    have "st1 = st \<or> (\<exists>j. st1 = export_info_state st stream PNone (PStr j) (PTime ee))"
      using get_or_create_activities_result [of E w st stream es i ee st1] Inr t
      by (auto split: if_splits)
    then have st1: "I st1" using I create by auto
    let ?w1 = "emit (fst ?g) (Window es ee)"
    have w1: "adds Q w ?w1"
      by (rule adds_trans [OF g]) (rule adds_emit, simp)
    let ?ww = "wait_for_export E ?w1 st1 stream i"
    have ww: "adds Q w (fst ?ww)"
      by (rule adds_trans [OF w1]) (rule wait_for_export_adds, rule failed, rule st1)
    show ?thesis
    proof (cases "snd ?ww")
      case (Inl e)
      then show ?thesis using ww Inr t by (simp add: activities_window_unfold Let_def)
    next
      case st2: (Inr st2)
      then have st2_eq: "st2 = st1" by (rule wait_for_export_result)
      let ?sr = "stream_rows E (fst ?ww) ''activites'' i"
      have sr: "adds Q w (fst ?sr)"
        by (rule adds_trans [OF ww]) (rule stream_rows_adds)
      show ?thesis
      proof (cases "snd ?sr")
        case (Inl e)
        then show ?thesis using sr Inr t st2 by (simp add: activities_window_unfold Let_def)
      next
        case rows: (Inr rows)
        let ?ar = "activities_rows E stream rows (fst ?sr) rc"
        have ar: "adds Q w (fst ?ar)"
          by (rule adds_trans [OF sr]) (rule quiet_adds, rule activities_rows_quiet)
        show ?thesis
        proof (cases "snd ?ar")
          case (Inl e)
          then show ?thesis
            using ar Inr t st2 rows by (simp add: activities_window_unfold Let_def)
        next
          case res: (Inr rc')
          have "Q (export_info_state st1 stream (PTime es) PNone PNone)"
            using finished [OF st1] .
          then have "adds Q w (write_state (fst ?ar)
                       (export_info_state st1 stream (PTime es) PNone PNone))"
            by (intro adds_trans [OF ar] adds_write_state)
          then show ?thesis
            using Inr t st2 st2_eq rows res by (simp add: activities_window_unfold Let_def)
        qed
      qed
    qed
  qed
qed

lemma activities_loop_unfold:
  "activities_loop (Suc fuel) E stream js w st es rc =
     (if es < js then
        (let aw = activities_window E stream w st es rc in
         case snd aw of
           Inl e \<Rightarrow> (fst aw, Raise e)
         | Inr (st', ee, rc') \<Rightarrow> activities_loop fuel E stream js (fst aw) st' ee rc')
      else (w, Ok (st, rc)))"
  by (simp add: Let_def split_beta split: sum.splits prod.splits)

lemma activities_loop_adds:
  assumes I: "I st"
    and create: "\<And>s i e. I s \<Longrightarrow> I (export_info_state s stream PNone (PStr i) (PTime e))
                       \<and> Q (export_info_state s stream PNone (PStr i) (PTime e))"
    and failed: "\<And>s. I s \<Longrightarrow> Q (export_info_state s stream PNone PNone PNone)"
    and finished: "\<And>s t. I s \<Longrightarrow>
                     I (export_info_state s stream (PTime t) PNone PNone)
                     \<and> Q (export_info_state s stream (PTime t) PNone PNone)"
  shows "adds Q w (fst (activities_loop fuel E stream js w st es rc))
       \<and> (\<forall>st' n. snd (activities_loop fuel E stream js w st es rc) = Ok (st', n) \<longrightarrow> I st')"
  using I
proof (induction fuel arbitrary: w st es rc)
  case 0
  then show ?case by simp
next
  case (Suc fuel)
  let ?aw = "activities_window E stream w st es rc"
  have step: "adds Q w (fst ?aw)"
  proof (rule activities_window_adds [where I = I])
    show "I st" by (rule Suc.prems)
    show "I (export_info_state st stream PNone (PStr i) (PTime e))
          \<and> Q (export_info_state st stream PNone (PStr i) (PTime e))" for i e
      using create Suc.prems(1) by blast
    show "I s \<Longrightarrow> Q (export_info_state s stream PNone PNone PNone)" for s
      by (rule failed)
    show "I s \<Longrightarrow> Q (export_info_state s stream (PTime es) PNone PNone)" for s
      using finished by blast
  qed
  show ?case
  proof (cases "es < js")
    case False
    then show ?thesis using Suc.prems by simp
  next
    case True
    show ?thesis
    proof (cases "snd ?aw")
      case (Inl e)
      then show ?thesis
        using True step by (simp add: activities_loop_unfold Let_def del: activities_loop.simps)
    next
      case (Inr t)
      obtain st' ee rc' where t: "t = (st', ee, rc')" by (cases t) auto
      from activities_window_result [of E stream w st es rc st' ee rc'] Inr t
      obtain i st1 where
        g: "snd (get_or_create_export_for_activities E w st stream es) = Inr (i, ee, st1)" and
        st': "st' = export_info_state st1 stream (PTime es) PNone PNone"
        by auto
      have "st1 = st \<or> (\<exists>j. st1 = export_info_state st stream PNone (PStr j) (PTime ee))"
        using get_or_create_activities_result [OF g] by (auto split: if_splits)
      then have "I st1" using Suc.prems(1) create by auto
      then have I': "I st'" using finished st' by blast
      have IH: "adds Q (fst ?aw) (fst (activities_loop fuel E stream js (fst ?aw) st' ee rc'))
         \<and> (\<forall>st'' n. snd (activities_loop fuel E stream js (fst ?aw) st' ee rc') = Ok (st'', n)
               \<longrightarrow> I st'')"
        by (rule Suc.IH [OF I'])
      show ?thesis
        using True Inr t IH adds_trans [OF step]
        by (simp add: activities_loop_unfold Let_def del: activities_loop.simps)
    qed
  qed
qed


lemma activities_loop_windows:
  assumes rk: "replication_key stream \<noteq> ''export_id''"
  shows "\<exists>ws. windows (events (fst (activities_loop fuel E stream js w st es rc)))
                = windows (events w) @ ws
            \<and> chain es ws
            \<and> (\<forall>(s, e)\<in>set ws. s < js)
            \<and> (\<forall>r. snd (activities_loop fuel E stream js w st es rc) = Ok r
                   \<longrightarrow> js \<le> chain_end es ws)
            \<and> (\<forall>a b rest. ws = (a, b) # rest \<longrightarrow>
                   first_activities_end E (tick w) st (tap_stream_id stream) a b
                   \<and> (\<forall>(s, e)\<in>set rest. \<exists>n. tick w < n \<and> e = fresh_end E n s))"
proof (induction fuel arbitrary: w st es rc)
  case 0
  show ?case by (rule exI [of _ "[]"]) simp
next
  case (Suc fuel)
  let ?lw = "activities_window E stream w st es rc"
  let ?g = "get_or_create_export_for_activities E w st stream es"
  show ?case
  proof (cases "es < js")
    case False
    show ?thesis by (rule exI [of _ "[]"]) (use False in simp)
  next
    case True
    show ?thesis
    proof (cases "snd ?lw")
      case (Inl e)
      show ?thesis
      proof (cases "snd ?g")
        case g: (Inl e')
        show ?thesis
          by (rule exI [of _ "[]"])
             (use True Inl g in \<open>simp add: activities_loop_unfold Let_def activities_window_windows
                                    del: activities_loop.simps\<close>)
      next
        case g: (Inr t)
        obtain i ee st1 where t: "t = (i, ee, st1)" by (cases t) auto
        have fe: "first_activities_end E (tick w) st (tap_stream_id stream) es ee"
          using get_or_create_activities_result [of E w st stream es i ee st1] g t
          by (auto simp: first_activities_end_def split: if_splits)
        show ?thesis
          by (rule exI [of _ "[(es, ee)]"])
             (use True Inl g t fe in \<open>simp add: activities_loop_unfold Let_def activities_window_windows
                                    del: activities_loop.simps\<close>)
      qed
    next
      case (Inr t)
      obtain st' ee rc' where t: "t = (st', ee, rc')" by (cases t) auto
      from activities_window_result [of E stream w st es rc st' ee rc'] Inr t
      obtain i st1 where
        g: "snd ?g = Inr (i, ee, st1)" and
        st': "st' = export_info_state st1 stream (PTime es) PNone PNone"
        by auto
      have fe: "first_activities_end E (tick w) st (tap_stream_id stream) es ee"
        using get_or_create_activities_result [OF g]
        by (auto simp: first_activities_end_def split: if_splits)
      have none: "get_bookmark st' (tap_stream_id stream) ''export_id'' = PNone"
        using export_id_after_window [OF rk, of st1 es] by (simp add: st')
      have win: "windows (events (fst ?lw)) = windows (events w) @ [(es, ee)]"
        by (simp add: activities_window_windows g)
      have tk: "tick w < tick (fst ?lw)" by (rule activities_window_tick)
      let ?rest = "activities_loop fuel E stream js (fst ?lw) st' ee rc'"
      from Suc.IH [of "fst ?lw" st' ee rc'] obtain ws where
        ws: "windows (events (fst ?rest)) = windows (events (fst ?lw)) @ ws" and
        ch: "chain ee ws" and
        lt: "\<forall>(s, e)\<in>set ws. s < js" and
        fin: "\<forall>r. snd ?rest = Ok r \<longrightarrow> js \<le> chain_end ee ws" and
        org: "\<forall>a b rest. ws = (a, b) # rest \<longrightarrow>
                   first_activities_end E (tick (fst ?lw)) st' (tap_stream_id stream) a b
                   \<and> (\<forall>(s, e)\<in>set rest. \<exists>n. tick (fst ?lw) < n \<and> e = fresh_end E n s)"
        by blast
      have fresh: "\<forall>(s, e)\<in>set ws. \<exists>n. tick w < n \<and> e = fresh_end E n s"
      proof (cases ws)
        case Nil
        then show ?thesis by simp
      next
        case (Cons p rest)
        obtain a b where p: "p = (a, b)" by (cases p) auto
        from org Cons p have
          h: "first_activities_end E (tick (fst ?lw)) st' (tap_stream_id stream) a b" and
          r: "\<forall>(s, e)\<in>set rest. \<exists>n. tick (fst ?lw) < n \<and> e = fresh_end E n s"
          by auto
        from h none have "b = fresh_end E (Suc (tick (fst ?lw))) a"
          by (simp add: first_activities_end_def reused_export_def)
        then have "\<exists>n. tick w < n \<and> b = fresh_end E n a" using tk by (intro exI [of _ "Suc (tick (fst ?lw))"]) simp
        moreover have "\<forall>(s, e)\<in>set rest. \<exists>n. tick w < n \<and> e = fresh_end E n s"
        proof (clarify)
          fix s e
          assume "(s, e) \<in> set rest"
          with r obtain n where "tick (fst ?lw) < n" "e = fresh_end E n s" by blast
          with tk show "\<exists>n. tick w < n \<and> e = fresh_end E n s"
            by (intro exI [of _ n]) simp
        qed
        ultimately show ?thesis using Cons p by simp
      qed
      have eq: "activities_loop (Suc fuel) E stream js w st es rc = ?rest"
        using True Inr t by (simp add: activities_loop_unfold Let_def del: activities_loop.simps)
      show ?thesis
        unfolding eq
        by (rule exI [of _ "(es, ee) # ws"]) (use ws win ch lt fin fe fresh True in simp)
    qed
  qed
qed




lemma sync_activities_unfold:
  assumes "pendulum_parse (get_bookmark st (tap_stream_id stream) (replication_key stream))
             = Inr es"
  shows "sync_activities fuel E w st stream =
           activities_loop fuel E stream (clock E (tick w))
             (w\<lparr>events := events w @ [WriteSchema (tap_stream_id stream)], tick := Suc (tick w)\<rparr>)
             st es 0"
  using assms
  by (simp add: sync_activities_def Let_def utcnow_def write_schema_def emit_def
           del: activities_loop.simps)

subsection \<open>Windows of a windowed sync\<close>

text \<open>
  C3, as the code has it, for the two windowed drivers, \<open>sync_leads\<close> on the leads
  stream and \<open>sync_activities\<close>.  The windows of a run form a chain: the first starts
  at the bookmark (a day earlier for leads with corona) and each of the others starts
  where the one before it ends.  Every window starts before the time read at the start
  of the run, and a run that returns has its last window end at or after that time.
  The end of the first window is the persisted \<^verbatim>\<open>export_end\<close> when the bookmarked
  export is still available; every other end is computed by \<open>get_export_end\<close> from the
  start \<open>s\<close> and two successive readings of the clock, as \<open>s\<close> plus 30 days when that is
  before the first reading and as the second reading otherwise, cut to whole seconds:
  it is the minimum of the two when the readings agree, and it is never later than the
  later reading.
\<close>

theorem windowed_sync_windows:
  assumes "replication_key stream \<noteq> ''export_id''"
      and "pendulum_parse (get_bookmark st (tap_stream_id stream) (replication_key stream))
             = Inr ib"
  shows "(tap_stream_id stream = ''leads'' \<longrightarrow>
          (\<exists>ws. windows (events (fst (sync_leads fuel E w st stream))) = windows (events w) @ ws
             \<and> chain (if use_corona E then ib - days ATTRIBUTION_WINDOW_DAYS else ib) ws
             \<and> (\<forall>(s, e)\<in>set ws. s < clock E (tick w))
             \<and> (\<forall>r. snd (sync_leads fuel E w st stream) = Ok r \<longrightarrow>
                   clock E (tick w)
                     \<le> chain_end (if use_corona E then ib - days ATTRIBUTION_WINDOW_DAYS else ib) ws)
             \<and> (\<forall>a b rest. ws = (a, b) # rest \<longrightarrow>
                   first_end E (Suc (tick w)) st a b
                   \<and> (\<forall>(s, e)\<in>set rest. \<exists>n. Suc (tick w) < n \<and> e = fresh_end E n s))))
      \<and> (\<exists>ws. windows (events (fst (sync_activities fuel E w st stream)))
                 = windows (events w) @ ws
             \<and> chain ib ws
             \<and> (\<forall>(s, e)\<in>set ws. s < clock E (tick w))
             \<and> (\<forall>r. snd (sync_activities fuel E w st stream) = Ok r \<longrightarrow>
                   clock E (tick w) \<le> chain_end ib ws)
             \<and> (\<forall>a b rest. ws = (a, b) # rest \<longrightarrow>
                   first_activities_end E (Suc (tick w)) st (tap_stream_id stream) a b
                   \<and> (\<forall>(s, e)\<in>set rest. \<exists>n. Suc (tick w) < n \<and> e = fresh_end E n s)))
      \<and> (\<forall>n s. clock E (Suc n) = clock E n \<longrightarrow>
            fresh_end E n s = whole_seconds (min (s + days MAX_EXPORT_DAYS) (clock E n)))
      \<and> (\<forall>n s. fresh_end E n s \<le> max (clock E n) (clock E (Suc n)))
      \<and> (\<forall>w0 s. snd (get_export_end E w0 s) = fresh_end E (tick w0) s)"
proof (intro conjI impI)
  assume sid: "tap_stream_id stream = ''leads''"
  let ?w1 = "w\<lparr>events := events w @ [WriteSchema ''leads''], tick := Suc (tick w)\<rparr>"
  let ?start = "if use_corona E then ib - days ATTRIBUTION_WINDOW_DAYS else ib"
  from assms(2) sid
  have bm: "pendulum_parse (get_bookmark st ''leads'' (replication_key stream)) = Inr ib"
    by simp
  from leads_loop_windows [OF sid assms(1), of fuel E ib "clock E (tick w)" ?w1 st ?start ib 0]
  obtain ws where
    "windows (events (fst (leads_loop fuel E stream ib (clock E (tick w)) ?w1 st ?start ib 0)))
       = windows (events ?w1) @ ws"
    "chain ?start ws"
    "\<forall>(s, e)\<in>set ws. s < clock E (tick w)"
    "\<forall>r. snd (leads_loop fuel E stream ib (clock E (tick w)) ?w1 st ?start ib 0) = Ok r
        \<longrightarrow> clock E (tick w) \<le> chain_end ?start ws"
    "\<forall>a b rest. ws = (a, b) # rest \<longrightarrow>
        first_end E (tick ?w1) st a b
        \<and> (\<forall>(s, e)\<in>set rest. \<exists>n. tick ?w1 < n \<and> e = fresh_end E n s)"
    by blast
  then show "\<exists>ws. windows (events (fst (sync_leads fuel E w st stream))) = windows (events w) @ ws
             \<and> chain ?start ws
             \<and> (\<forall>(s, e)\<in>set ws. s < clock E (tick w))
             \<and> (\<forall>r. snd (sync_leads fuel E w st stream) = Ok r \<longrightarrow>
                   clock E (tick w) \<le> chain_end ?start ws)
             \<and> (\<forall>a b rest. ws = (a, b) # rest \<longrightarrow>
                   first_end E (Suc (tick w)) st a b
                   \<and> (\<forall>(s, e)\<in>set rest. \<exists>n. Suc (tick w) < n \<and> e = fresh_end E n s))"
    unfolding sync_leads_unfold [OF bm]
    by (intro exI [of _ ws]) simp
next
  let ?w1 = "w\<lparr>events := events w @ [WriteSchema (tap_stream_id stream)], tick := Suc (tick w)\<rparr>"
  from activities_loop_windows [OF assms(1), of fuel E "clock E (tick w)" ?w1 st ib 0]
  obtain ws where
    "windows (events (fst (activities_loop fuel E stream (clock E (tick w)) ?w1 st ib 0)))
       = windows (events ?w1) @ ws"
    "chain ib ws"
    "\<forall>(s, e)\<in>set ws. s < clock E (tick w)"
    "\<forall>r. snd (activities_loop fuel E stream (clock E (tick w)) ?w1 st ib 0) = Ok r
        \<longrightarrow> clock E (tick w) \<le> chain_end ib ws"
    "\<forall>a b rest. ws = (a, b) # rest \<longrightarrow>
        first_activities_end E (tick ?w1) st (tap_stream_id stream) a b
        \<and> (\<forall>(s, e)\<in>set rest. \<exists>n. tick ?w1 < n \<and> e = fresh_end E n s)"
    by blast
  then show "\<exists>ws. windows (events (fst (sync_activities fuel E w st stream)))
                 = windows (events w) @ ws
             \<and> chain ib ws
             \<and> (\<forall>(s, e)\<in>set ws. s < clock E (tick w))
             \<and> (\<forall>r. snd (sync_activities fuel E w st stream) = Ok r \<longrightarrow>
                   clock E (tick w) \<le> chain_end ib ws)
             \<and> (\<forall>a b rest. ws = (a, b) # rest \<longrightarrow>
                   first_activities_end E (Suc (tick w)) st (tap_stream_id stream) a b
                   \<and> (\<forall>(s, e)\<in>set rest. \<exists>n. Suc (tick w) < n \<and> e = fresh_end E n s))"
    unfolding sync_activities_unfold [OF assms(2)]
    by (intro exI [of _ ws]) simp
next
  show "\<forall>n s. clock E (Suc n) = clock E n \<longrightarrow>
            fresh_end E n s = whole_seconds (min (s + days MAX_EXPORT_DAYS) (clock E n))"
    by (simp add: fresh_end_same_reading)
  show "\<forall>n s. fresh_end E n s \<le> max (clock E n) (clock E (Suc n))"
    by (simp add: fresh_end_le)
  show "\<forall>w0 s. snd (get_export_end E w0 s) = fresh_end E (tick w0) s"
    by (simp add: get_export_end_fresh)
qed

lemmas leads_run_defs =
  sync_leads_def leads_window_def get_or_create_export_for_leads_def selected_fields_def
  run_defs

text \<open>
  C3 as stated fails for a reused export: the run below resumes the bookmarked export,
  and its first window, from the epoch to day 45, is longer than 30 days.
\<close>

theorem window_end_of_reused_export_counterexample:
  "windows (events (fst (sync_leads 2 day46_env world0 stalled_state leads_stream)))
     = [(0, 3888000000000), (3888000000000, 3974400000000)]
   \<and> 0 + days MAX_EXPORT_DAYS < 3888000000000"
  by (simp add: leads_run_defs day46_env_def sample_env_def world0_def stalled_state_def
        leads_stream_def windows_def numeral_2_eq_2)


lemma day46_run:
  "windows (events (fst (sync_leads 2 day46_env world0 stalled_state leads_stream)))
     = [(0, 3888000000000), (3888000000000, 3974400000000)]"
  by (simp add: leads_run_defs day46_env_def sample_env_def world0_def stalled_state_def
        leads_stream_def windows_def numeral_2_eq_2)

lemma ten_days_run:
  "windows (events (fst (sync_activities 1 ten_days_env world0 activities_state
                           activities_stream)))
     = [(0, 864000000000)]"
  by (simp add: sync_activities_def activities_window_def
        get_or_create_export_for_activities_def run_defs ten_days_env_def sample_env_def
        world0_def activities_state_def activities_stream_def windows_def)

theorem windowed_sync_windows_witness:
  "chain (if use_corona day46_env then 0 - days ATTRIBUTION_WINDOW_DAYS else 0)
     (windows (events (fst (sync_leads 2 day46_env world0 stalled_state leads_stream))))
   \<and> first_end day46_env (Suc (tick world0)) stalled_state 0 3888000000000
   \<and> (\<exists>n. Suc (tick world0) < n \<and> 3974400000000 = fresh_end day46_env n 3888000000000)
   \<and> fresh_end day46_env 0 0 = whole_seconds (min (0 + days MAX_EXPORT_DAYS) (clock day46_env 0))
   \<and> chain 0 (windows (events (fst (sync_activities 1 ten_days_env world0 activities_state
                                       activities_stream))))
   \<and> first_activities_end ten_days_env (Suc (tick world0)) activities_state ''activities_1''
       0 864000000000"
proof -
  have sid: "tap_stream_id leads_stream = ''leads''" by (simp add: leads_stream_def)
  have rk: "replication_key leads_stream \<noteq> ''export_id''" by (simp add: leads_stream_def)
  have bm: "pendulum_parse (get_bookmark stalled_state (tap_stream_id leads_stream)
              (replication_key leads_stream)) = Inr 0"
    by (simp add: leads_stream_def stalled_state_def get_bookmark_def dict_get_def)
  have nil: "windows (events world0) = []" by (simp add: world0_def)
  from windowed_sync_windows [OF rk bm, of 2 day46_env world0] sid obtain ws where
    ws: "windows (events (fst (sync_leads 2 day46_env world0 stalled_state leads_stream)))
           = windows (events world0) @ ws" and
    ch: "chain (if use_corona day46_env then 0 - days ATTRIBUTION_WINDOW_DAYS else 0) ws" and
    org: "\<forall>a b rest. ws = (a, b) # rest \<longrightarrow>
            first_end day46_env (Suc (tick world0)) stalled_state a b
            \<and> (\<forall>(s, e)\<in>set rest. \<exists>n. Suc (tick world0) < n \<and> e = fresh_end day46_env n s)" and
    same: "\<forall>n s. clock day46_env (Suc n) = clock day46_env n \<longrightarrow>
            fresh_end day46_env n s
              = whole_seconds (min (s + days MAX_EXPORT_DAYS) (clock day46_env n))"
    by blast
  have eq: "ws = [(0, 3888000000000), (3888000000000, 3974400000000)]"
    using ws [unfolded day46_run] by (simp add: nil)
  have "clock day46_env (Suc 0) = clock day46_env 0"
    by (simp add: day46_env_def sample_env_def)
  with same have fresh: "fresh_end day46_env 0 0
                    = whole_seconds (min (0 + days MAX_EXPORT_DAYS) (clock day46_env 0))"
    by blast
  have leads: "chain (if use_corona day46_env then 0 - days ATTRIBUTION_WINDOW_DAYS else 0)
     (windows (events (fst (sync_leads 2 day46_env world0 stalled_state leads_stream))))
   \<and> first_end day46_env (Suc (tick world0)) stalled_state 0 3888000000000
   \<and> (\<exists>n. Suc (tick world0) < n \<and> 3974400000000 = fresh_end day46_env n 3888000000000)"
    using ch org eq day46_run by auto
  have ark: "replication_key activities_stream \<noteq> ''export_id''"
    by (simp add: activities_stream_def)
  have aid: "tap_stream_id activities_stream = ''activities_1''"
    by (simp add: activities_stream_def)
  have abm: "pendulum_parse (get_bookmark activities_state (tap_stream_id activities_stream)
              (replication_key activities_stream)) = Inr 0"
    by (simp add: activities_stream_def activities_state_def get_bookmark_def dict_get_def)
  from windowed_sync_windows [OF ark abm, of 1 ten_days_env world0] obtain vs where
    vs: "windows (events (fst (sync_activities 1 ten_days_env world0 activities_state
                                 activities_stream))) = windows (events world0) @ vs" and
    ach: "chain 0 vs" and
    aorg: "\<forall>a b rest. vs = (a, b) # rest \<longrightarrow>
            first_activities_end ten_days_env (Suc (tick world0)) activities_state
              (tap_stream_id activities_stream) a b
            \<and> (\<forall>(s, e)\<in>set rest. \<exists>n. Suc (tick world0) < n \<and> e = fresh_end ten_days_env n s)"
    by blast
  have aeq: "vs = [(0, 864000000000)]"
    using vs [unfolded ten_days_run] by (simp add: nil)
  have acts: "chain 0 (windows (events (fst (sync_activities 1 ten_days_env world0
                                               activities_state activities_stream))))
   \<and> first_activities_end ten_days_env (Suc (tick world0)) activities_state ''activities_1''
       0 864000000000"
    using ach aorg aeq ten_days_run aid by auto
  from leads fresh acts show ?thesis by blast
qed

subsection \<open>The row loop of the leads sync\<close>






subsection \<open>High-water mark of the leads sync\<close>

lemma records_append [simp]: "records (a @ b) = records a @ records b"
  by (simp add: records_def)

lemma records_Nil [simp]: "records [] = []"
  by (simp add: records_def)

lemma records_Cons [simp]: "records (e # es) = record_of e @ records es"
  by (simp add: records_def)








lemmas format_defs =
  format_values_def format_value_def sample_int_def sample_str_def sample_ge_def










subsection \<open>Properties of the state that every driver keeps\<close>

lemma stable_export_info:
  assumes "stable P" and "P s"
      and "replication_key stream \<notin> {''export_id'', ''export_end''}"
      and "(i = PNone) = (e = PNone)"
  shows "P (export_info_state s stream b i e)"
  using assms by (simp add: stable_def export_info_state_def Let_def)

lemma adds_write_schema: "adds Q w (write_schema w sid)"
  unfolding write_schema_def by (rule adds_emit) simp

lemma adds_schema:
  "adds Q w (w\<lparr>events := events w @ [WriteSchema sid], tick := n\<rparr>)"
  by (simp add: adds_def)

lemma sync_leads_stable:
  assumes R: "stable P" and P: "P st"
      and rk: "replication_key stream \<notin> {''export_id'', ''export_end''}"
  shows "adds P w (fst (sync_leads fuel E w st stream))
       \<and> (\<forall>st' n. snd (sync_leads fuel E w st stream) = Ok (st', n) \<longrightarrow> P st')"
proof (cases "pendulum_parse (get_bookmark st ''leads'' (replication_key stream))")
  case (Inl e)
  then show ?thesis
    by (simp add: sync_leads_def Let_def adds_write_schema)
next
  case (Inr ib)
  let ?w1 = "w\<lparr>events := events w @ [WriteSchema ''leads''], tick := Suc (tick w)\<rparr>"
  let ?start = "if use_corona E then ib - days ATTRIBUTION_WINDOW_DAYS else ib"
  let ?loop = "leads_loop fuel E stream ib (clock E (tick w)) ?w1 st ?start ib 0"
  have "adds P ?w1 (fst ?loop) \<and> (\<forall>st' n. snd ?loop = Ok (st', n) \<longrightarrow> P st')"
  proof (rule leads_loop_adds [where I = P and T = "\<lambda>t. True"])
    show "P st" by (rule P)
    show "True" by simp
    show "P s \<Longrightarrow> P (export_info_state s stream PNone (PStr i) (PTime e))
                 \<and> P (export_info_state s stream PNone (PStr i) (PTime e))" for s i e
      using stable_export_info [OF R _ rk, of s "PStr i" "PTime e" PNone] by simp
    show "P s \<Longrightarrow> P (export_info_state s stream PNone PNone PNone)" for s
      using stable_export_info [OF R _ rk, of s PNone PNone PNone] by simp
    show "P s \<Longrightarrow> True \<Longrightarrow> P (export_info_state s stream (PTime t) PNone PNone)
                 \<and> P (export_info_state s stream (PTime t) PNone PNone)" for s t
      using stable_export_info [OF R _ rk, of s PNone PNone "PTime t"] by simp
    show "True" if "True" for ee rows w3 mb rc mb' rc'
      by simp
  qed
  then show ?thesis
    using adds_trans [OF adds_schema [where Q = P and w = w and sid = "''leads''" and n = "Suc (tick w)"]]
    by (simp add: sync_leads_unfold [OF Inr])
qed

lemma sync_activities_stable:
  assumes R: "stable P" and P: "P st"
      and rk: "replication_key stream \<notin> {''export_id'', ''export_end''}"
  shows "adds P w (fst (sync_activities fuel E w st stream))
       \<and> (\<forall>st' n. snd (sync_activities fuel E w st stream) = Ok (st', n) \<longrightarrow> P st')"
proof (cases "pendulum_parse (get_bookmark st (tap_stream_id stream) (replication_key stream))")
  case (Inl e)
  then show ?thesis
    by (simp add: sync_activities_def Let_def adds_write_schema)
next
  case (Inr es)
  let ?w1 = "w\<lparr>events := events w @ [WriteSchema (tap_stream_id stream)], tick := Suc (tick w)\<rparr>"
  let ?loop = "activities_loop fuel E stream (clock E (tick w)) ?w1 st es 0"
  have "adds P ?w1 (fst ?loop) \<and> (\<forall>st' n. snd ?loop = Ok (st', n) \<longrightarrow> P st')"
  proof (rule activities_loop_adds [where I = P])
    show "P st" by (rule P)
    show "P s \<Longrightarrow> P (export_info_state s stream PNone (PStr i) (PTime e))
                 \<and> P (export_info_state s stream PNone (PStr i) (PTime e))" for s i e
      using stable_export_info [OF R _ rk, of s "PStr i" "PTime e" PNone] by simp
    show "P s \<Longrightarrow> P (export_info_state s stream PNone PNone PNone)" for s
      using stable_export_info [OF R _ rk, of s PNone PNone PNone] by simp
    show "P s \<Longrightarrow> P (export_info_state s stream (PTime t) PNone PNone)
                 \<and> P (export_info_state s stream (PTime t) PNone PNone)" for s t
      using stable_export_info [OF R _ rk, of s PNone PNone "PTime t"] by simp
  qed
  then show ?thesis
    using adds_trans [OF adds_schema [where Q = P and w = w and sid = "tap_stream_id stream" and n = "Suc (tick w)"]]
    by (simp add: sync_activities_unfold [OF Inr])
qed

lemma quiet_call: "(\<And>s. e \<noteq> WriteState s) \<Longrightarrow> window_of e = [] \<Longrightarrow> quiet w (call w e)"
  by (cases e) (auto simp: quiet_def call_def)

lemma page_rows_quiet: "quiet w (fst (page_rows E stream sid key start_date rows w rc))"
proof (induction rows arbitrary: w rc)
  case Nil
  show ?case by simp
next
  case (Cons row rows)
  show ?case
    by (auto split: sum.splits intro: Cons.IH quiet_trans [OF quiet_write_record])
qed

lemma activity_types_rows_quiet: "quiet w (fst (activity_types_rows E stream rows w rc))"
proof (induction rows arbitrary: w rc)
  case Nil
  show ?case by simp
next
  case (Cons row rows)
  show ?case
    by (auto split: sum.splits intro: Cons.IH quiet_trans [OF quiet_write_record])
qed

lemma quiet_request: "quiet w (fst (request E w endpoint name params))"
  by (simp add: request_def quiet_call)

lemma programs_loop_quiet:
  "quiet w (fst (programs_loop fuel E stream start_date end_date w offset rc))"
proof (induction fuel arbitrary: w offset rc)
  case 0
  show ?case by simp
next
  case (Suc fuel)
  let ?rq = "request E w ''rest/asset/v1/programs.json'' ''programs''
               (programs_params start_date end_date offset)"
  have rq: "quiet w (fst ?rq)" by (rule quiet_request)
  show ?case
  proof (cases "snd ?rq")
    case (Inl e)
    then show ?thesis using rq by (simp add: split_beta)
  next
    case (Inr data)
    let ?pr = "page_rows E stream ''programs'' ''updatedAt'' start_date (resp_result data)
                 (fst ?rq) rc"
    have pr: "quiet w (fst ?pr)" by (rule quiet_trans [OF rq page_rows_quiet])
    show ?thesis
    proof (cases "snd ?pr")
      case (Inl e)
      then show ?thesis using rq pr Inr by (simp add: split_beta)
    next
      case rc': (Inr rc')
      have "quiet w (fst (programs_loop fuel E stream start_date end_date (fst ?pr)
                            (offset + 200) rc'))"
        by (rule quiet_trans [OF pr Suc.IH])
      then show ?thesis using rq Inr rc' by (simp add: split_beta)
    qed
  qed
qed

lemma sync_programs_stable:
  assumes R: "stable P" and P: "P st"
  shows "adds P w (fst (sync_programs fuel E w st stream))
       \<and> (\<forall>st' n. snd (sync_programs fuel E w st stream) = Ok (st', n) \<longrightarrow> P st')"
proof -
  let ?w1 = "w\<lparr>events := events w @ [WriteSchema ''programs''], tick := Suc (tick w)\<rparr>"
  let ?start = "get_bookmark st ''programs'' ''updatedAt''"
  let ?end = "PTime (clock E (tick w))"
  let ?loop = "programs_loop fuel E stream ?start ?end ?w1 0 0"
  let ?st' = "write_bookmark st ''programs'' ''updatedAt'' ?end"
  have run: "sync_programs fuel E w st stream =
     (case snd ?loop of
        Raise e \<Rightarrow> (fst ?loop, Raise e)
      | OutOfFuel \<Rightarrow> (fst ?loop, OutOfFuel)
      | Ok rc \<Rightarrow> (write_state (fst ?loop) ?st', Ok (?st', rc)))"
    by (cases "snd ?loop")
       (simp_all add: sync_programs_def Let_def utcnow_def write_schema_def emit_def split_beta
             del: programs_loop.simps)
  have loop: "adds P w (fst ?loop)"
    by (rule adds_trans [OF adds_schema quiet_adds [OF programs_loop_quiet]])
  have st': "P ?st'" using R P by (simp add: stable_def)
  have "adds P (fst ?loop) (write_state (fst ?loop) ?st')"
    using st' by (rule adds_write_state)
  then have "adds P w (write_state (fst ?loop) ?st')"
    by (rule adds_trans [OF loop])
  then show ?thesis
    using loop st' by (cases "snd ?loop") (simp_all add: run)
qed

lemma sync_activity_types_stable:
  assumes P: "P st"
  shows "adds P w (fst (sync_activity_types E w st stream))
       \<and> (\<forall>st' n. snd (sync_activity_types E w st stream) = Ok (st', n) \<longrightarrow> P st')"
proof -
  let ?w0 = "write_schema w ''activity_types''"
  let ?rq = "request E ?w0 ''rest/v1/activities/types.json'' ''activity_types'' []"
  have w0: "adds P w ?w0" unfolding write_schema_def by (rule adds_emit) simp
  have rq: "adds P w (fst ?rq)"
    by (rule adds_trans [OF w0 quiet_adds [OF quiet_request]])
  have rows: "adds P w (fst (activity_types_rows E stream rows (fst ?rq) 0))" for rows
    by (rule adds_trans [OF rq quiet_adds [OF activity_types_rows_quiet]])
  show ?thesis
    using rq rows P
    by (auto simp: sync_activity_types_def Let_def split_beta split: sum.splits)
qed

lemma paginated_loop_stable:
  assumes R: "stable P" and P: "P st"
  shows "adds P w (fst (paginated_loop fuel E stream start_date w st params rc))
       \<and> (\<forall>st' n. snd (paginated_loop fuel E stream start_date w st params rc) = Ok (st', n)
             \<longrightarrow> P st')"
  using P
proof (induction fuel arbitrary: w st params rc)
  case 0
  show ?case by simp
next
  case (Suc fuel)
  let ?rq = "request E w (paginated_endpoint stream) (tap_stream_id stream) params"
  have rq: "adds P w (fst ?rq)" by (rule quiet_adds [OF quiet_request])
  show ?case
  proof (cases "snd ?rq")
    case (Inl e)
    then show ?thesis using rq by (simp add: split_beta)
  next
    case (Inr data)
    let ?pr = "page_rows E stream (tap_stream_id stream) (replication_key stream) start_date
                 (resp_result data) (fst ?rq) rc"
    have pr: "adds P w (fst ?pr)"
      by (rule adds_trans [OF rq quiet_adds [OF page_rows_quiet]])
    show ?thesis
    proof (cases "snd ?pr")
      case (Inl e)
      then show ?thesis using pr Inr by (simp add: split_beta)
    next
      case rc': (Inr rc')
      show ?thesis
      proof (cases "resp_next_page_token data")
        case None
        then show ?thesis using pr Inr rc' Suc.prems by (simp add: split_beta)
      next
        case (Some token)
        let ?st' = "write_bookmark st (tap_stream_id stream) ''next_page_token'' token"
        have st': "P ?st'" using R Suc.prems by (simp add: stable_def)
        have "adds P (fst ?pr) (write_state (fst ?pr) ?st')"
          using st' by (rule adds_write_state)
        then have w2: "adds P w (write_state (fst ?pr) ?st')"
          by (rule adds_trans [OF pr])
        show ?thesis
          using Inr rc' Some Suc.IH [OF st'] adds_trans [OF w2]
          by (simp add: split_beta Let_def)
      qed
    qed
  qed
qed

lemma sync_paginated_stable:
  assumes R: "stable P" and P: "P st"
      and rk: "replication_key stream \<notin> {''export_id'', ''export_end''}"
  shows "adds P w (fst (sync_paginated fuel E w st stream))
       \<and> (\<forall>st' n. snd (sync_paginated fuel E w st stream) = Ok (st', n) \<longrightarrow> P st')"
proof -
  let ?sid = "tap_stream_id stream"
  let ?w1 = "w\<lparr>events := events w @ [WriteSchema ?sid], tick := Suc (tick w)\<rparr>"
  let ?params = "first_params st stream"
  let ?loop = "paginated_loop fuel E stream (get_bookmark st ?sid (replication_key stream))
                 ?w1 st ?params 0"
  have params_eq:
    "(if truthy (get_bookmark st ?sid ''next_page_token'')
      then AList.update ''nextPageToken'' (get_bookmark st ?sid ''next_page_token'')
             [(''batchSize'', PInt 300)]
      else [(''batchSize'', PInt 300)]) = ?params"
    by (simp add: first_params_def)
  have w1eq: "utcnow E (write_schema w ?sid) = (?w1, clock E (tick w))"
    by (simp add: utcnow_def write_schema_def emit_def)
  have unf: "sync_paginated fuel E w st stream =
     (case ?loop of
        (w2, Raise e) \<Rightarrow> (w2, Raise e)
      | (w2, OutOfFuel) \<Rightarrow> (w2, OutOfFuel)
      | (w2, Ok (st2, record_count)) \<Rightarrow>
          (write_state w2
             (write_bookmark (write_bookmark st2 ?sid ''next_page_token'' PNone) ?sid
                (replication_key stream) (PTime (clock E (tick w)))),
           Ok (write_bookmark (write_bookmark st2 ?sid ''next_page_token'' PNone) ?sid
                (replication_key stream) (PTime (clock E (tick w))), record_count)))"
    unfolding sync_paginated_def Let_def w1eq params_eq prod.case ..
  have loop: "adds P ?w1 (fst ?loop) \<and> (\<forall>st' n. snd ?loop = Ok (st', n) \<longrightarrow> P st')"
    by (rule paginated_loop_stable [OF R P])
  then have l1: "adds P w (fst ?loop)"
    using adds_trans [OF adds_schema] by blast
  have fin: "P (write_bookmark (write_bookmark st2 ?sid ''next_page_token'' PNone) ?sid
                (replication_key stream) t)" if "P st2" for st2 t
    using R that rk by (simp add: stable_def)
  obtain w2 r where lp: "?loop = (w2, r)" by (cases ?loop)
  have w2: "adds P w w2" using l1 lp by simp
  show ?thesis
  proof (cases r)
    case (Ok p)
    obtain st2 rc where p: "p = (st2, rc)" by (cases p) auto
    let ?st4 = "write_bookmark (write_bookmark st2 ?sid ''next_page_token'' PNone) ?sid
                  (replication_key stream) (PTime (clock E (tick w)))"
    have "P st2" using loop lp Ok p by simp
    then have st4: "P ?st4" by (rule fin)
    then have "adds P w2 (write_state w2 ?st4)" by (rule adds_write_state)
    then have "adds P w (write_state w2 ?st4)" by (rule adds_trans [OF w2])
    then show ?thesis
      using st4 unfolding unf lp Ok p by simp
  next
    case (Raise e)
    then show ?thesis using w2 unfolding unf lp by simp
  next
    case OutOfFuel
    then show ?thesis using w2 unfolding unf lp by simp
  qed
qed



lemma sync_stream_stable:
  assumes R: "stable P" and P: "P st"
      and rk: "replication_key stream \<notin> {''export_id'', ''export_end''}"
  shows "adds P w (fst (sync_stream fuel E w st stream))
       \<and> (\<forall>st' n. snd (sync_stream fuel E w st stream) = Ok (st', n) \<longrightarrow> P st')"
proof -
  let ?sid = "tap_stream_id stream"
  have "sync_stream fuel E w st stream = sync_activity_types E w st stream"
    if "?sid = ''activity_types''"
    using that by (simp add: sync_stream_def)
  moreover have "sync_stream fuel E w st stream = sync_leads fuel E w st stream"
    if "?sid \<noteq> ''activity_types''" "?sid = ''leads''"
    using that by (simp add: sync_stream_def)
  moreover have "sync_stream fuel E w st stream = sync_activities fuel E w st stream"
    if "?sid \<noteq> ''activity_types''" "?sid \<noteq> ''leads''" "take 11 ?sid = ''activities_''"
    using that by (simp add: sync_stream_def)
  moreover have "sync_stream fuel E w st stream = sync_paginated fuel E w st stream"
    if "?sid \<noteq> ''activity_types''" "?sid \<noteq> ''leads''" "take 11 ?sid \<noteq> ''activities_''"
       "?sid \<in> set [''campaigns'', ''lists'']"
    using that unfolding sync_stream_def by (simp only: if_False if_True)
  moreover have "sync_stream fuel E w st stream = sync_programs fuel E w st stream"
    if "?sid \<noteq> ''activity_types''" "?sid \<noteq> ''leads''" "take 11 ?sid \<noteq> ''activities_''"
       "?sid \<notin> set [''campaigns'', ''lists'']" "?sid = ''programs''"
    using that unfolding sync_stream_def by (simp only: if_False if_True refl)
  moreover have "sync_stream fuel E w st stream = (w, Raise (NotImplemented ?sid))"
    if "?sid \<noteq> ''activity_types''" "?sid \<noteq> ''leads''" "take 11 ?sid \<noteq> ''activities_''"
       "?sid \<notin> set [''campaigns'', ''lists'']" "?sid \<noteq> ''programs''"
    using that unfolding sync_stream_def by (simp only: if_False if_True)
  ultimately consider
      (types) "sync_stream fuel E w st stream = sync_activity_types E w st stream"
    | (leads) "sync_stream fuel E w st stream = sync_leads fuel E w st stream"
    | (activities) "sync_stream fuel E w st stream = sync_activities fuel E w st stream"
    | (paginated) "sync_stream fuel E w st stream = sync_paginated fuel E w st stream"
    | (programs) "sync_stream fuel E w st stream = sync_programs fuel E w st stream"
    | (other) "sync_stream fuel E w st stream = (w, Raise (NotImplemented (tap_stream_id stream)))"
    by blast
  then show ?thesis
  proof cases
    case types
    show ?thesis unfolding types by (rule sync_activity_types_stable [where P = P, OF P])
  next
    case leads
    show ?thesis unfolding leads by (rule sync_leads_stable [OF R P rk])
  next
    case activities
    show ?thesis unfolding activities by (rule sync_activities_stable [OF R P rk])
  next
    case paginated
    show ?thesis unfolding paginated by (rule sync_paginated_stable [OF R P rk])
  next
    case programs
    show ?thesis unfolding programs by (rule sync_programs_stable [OF R P])
  next
    case other
    show ?thesis unfolding other by simp
  qed
qed



lemma sync_streams_stable:
  assumes R: "stable P"
      and run: "\<And>w st stream. P st \<Longrightarrow> stream \<in> set catalog \<Longrightarrow>
                  adds P w (fst (run w st stream))
                  \<and> (\<forall>st' n. snd (run w st stream) = Ok (st', n) \<longrightarrow> P st')"
      and P: "P st"
  shows "adds P w (fst (sync_streams run catalog w st m))"
  using run P
proof (induction catalog arbitrary: w st m)
  case Nil
  show ?case by simp
next
  case (Cons stream rest)
  have IH: "adds P w' (fst (sync_streams run rest w' st' m'))" if p: "P st'" for w' st' m'
  proof (rule Cons.IH [OF _ p])
    fix w0 st0 s
    assume "P st0" "s \<in> set rest"
    then show "adds P w0 (fst (run w0 st0 s))
               \<and> (\<forall>st' n. snd (run w0 st0 s) = Ok (st', n) \<longrightarrow> P st')"
      using Cons.prems(1) [of st0 s w0] by simp
  qed
  let ?st1 = "set_currently_syncing st (PStr (tap_stream_id stream))"
  let ?w1 = "write_state w ?st1"
  obtain w2 res where rr: "run ?w1 ?st1 stream = (w2, res)" by (cases "run ?w1 ?st1 stream")
  have st1: "P ?st1" using R Cons.prems(2) by (simp add: stable_def)
  have w1: "adds P w ?w1" using st1 by (rule adds_write_state)
  have r: "adds P ?w1 w2 \<and> (\<forall>st' n. res = Ok (st', n) \<longrightarrow> P st')"
    using Cons.prems(1) [OF st1, of stream ?w1] by (simp add: rr)
  then have "adds P ?w1 w2" by simp
  then have w2: "adds P w w2" by (rule adds_trans [OF w1])
  show ?case
  proof (cases "\<not> truthy (selected stream)")
    case True
    have "sync_streams run (stream # rest) w st m = sync_streams run rest w st m"
      by (subst sync_streams.simps(2), subst if_P [OF True], rule refl)
    then show ?thesis using IH [OF Cons.prems(2)] by simp
  next
    case c1: False
    show ?thesis
    proof (cases "truthy m \<and> PStr (tap_stream_id stream) \<noteq> m")
      case True
      have "sync_streams run (stream # rest) w st m = sync_streams run rest w st m"
        by (subst sync_streams.simps(2), subst if_not_P [OF c1], subst if_P [OF True], rule refl)
      then show ?thesis using IH [OF Cons.prems(2)] by simp
    next
      case c2: False
      have unf: "sync_streams run (stream # rest) w st m =
        (case (w2, res) of
              (w2, Raise e) \<Rightarrow> (w2, Raise e)
            | (w2, OutOfFuel) \<Rightarrow> (w2, OutOfFuel)
            | (w2, Ok (st2, record_count)) \<Rightarrow>
                (let w3 = emit w2 (Metric (tap_stream_id stream) record_count);
                     st3 = set_currently_syncing st2 PNone;
                     w4 = write_state w3 st3
                 in sync_streams run rest w4 st3 PNone))"
        by (subst sync_streams.simps(2), subst if_not_P [OF c1], subst if_not_P [OF c2],
            simp only: Let_def rr)
      show ?thesis
      proof (cases res)
        case (Ok p)
        obtain st2 n where p: "p = (st2, n)" by (cases p) auto
        let ?st3 = "set_currently_syncing st2 PNone"
        let ?w3 = "emit w2 (Metric (tap_stream_id stream) n)"
        let ?w4 = "write_state ?w3 ?st3"
        have "P st2" using r Ok p by blast
        then have st3: "P ?st3" using R by (simp add: stable_def)
        have "adds P w2 ?w3" by (rule adds_emit) simp
        then have w3: "adds P w ?w3" by (rule adds_trans [OF w2])
        have "adds P ?w3 ?w4" using st3 by (rule adds_write_state)
        then have w4: "adds P w ?w4" by (rule adds_trans [OF w3])
        have eq: "sync_streams run (stream # rest) w st m = sync_streams run rest ?w4 ?st3 PNone"
          unfolding unf Ok p by (simp only: prod.case res.case Let_def)
        show ?thesis
          unfolding eq by (rule adds_trans [OF w4 IH [OF st3]])
      next
        case (Raise e)
        have "sync_streams run (stream # rest) w st m = (w2, Raise e)"
          unfolding unf Raise by (simp only: prod.case res.case)
        then show ?thesis using w2 by simp
      next
        case OutOfFuel
        have "sync_streams run (stream # rest) w st m = (w2, OutOfFuel)"
          unfolding unf OutOfFuel by (simp only: prod.case res.case)
        then show ?thesis using w2 by simp
      qed
    qed
  qed
qed


subsection \<open>The two export fields\<close>

lemma get_bookmark_set_currently_syncing [simp]:
  "get_bookmark (set_currently_syncing s v) sid k = get_bookmark s sid k"
  by (simp add: get_bookmark_def set_currently_syncing_def)

lemma stable_paired_or_same: "stable (\<lambda>s. \<forall>sid. paired s sid \<or> same_export st s sid)"
  unfolding stable_def paired_def same_export_def
  by (auto simp: get_write_bookmark)

lemma paired_after_writer:
  assumes "replication_key stream \<notin> {''export_id'', ''export_end''}"
      and "(i = PNone) = (e = PNone)"
  shows "paired (export_info_state s stream b i e) (tap_stream_id stream)"
  using assms by (auto simp: paired_def export_info_state_def Let_def get_write_bookmark)

lemma sync_leads_paired:
  assumes rk: "replication_key stream \<notin> {''export_id'', ''export_end''}"
  shows "adds (\<lambda>s. paired s (tap_stream_id stream)) w (fst (sync_leads fuel E w st stream))"
proof (cases "pendulum_parse (get_bookmark st ''leads'' (replication_key stream))")
  case (Inl e)
  then show ?thesis
    by (simp add: sync_leads_def Let_def adds_write_schema)
next
  case (Inr ib)
  let ?Q = "\<lambda>s. paired s (tap_stream_id stream)"
  let ?w1 = "w\<lparr>events := events w @ [WriteSchema ''leads''], tick := Suc (tick w)\<rparr>"
  let ?start = "if use_corona E then ib - days ATTRIBUTION_WINDOW_DAYS else ib"
  let ?loop = "leads_loop fuel E stream ib (clock E (tick w)) ?w1 st ?start ib 0"
  have "adds ?Q ?w1 (fst ?loop) \<and> (\<forall>st' n. snd ?loop = Ok (st', n) \<longrightarrow> True)"
  proof (rule leads_loop_adds [where I = "\<lambda>s. True" and T = "\<lambda>t. True"])
    show "True \<and> ?Q (export_info_state s stream PNone (PStr i) (PTime e))" for s i e
      using paired_after_writer [OF rk, of "PStr i" "PTime e" s PNone] by simp
    show "?Q (export_info_state s stream PNone PNone PNone)" for s
      using paired_after_writer [OF rk, of PNone PNone s PNone] by simp
    show "True \<and> ?Q (export_info_state s stream (PTime t) PNone PNone)" for s t
      using paired_after_writer [OF rk, of PNone PNone s "PTime t"] by simp
  qed simp_all
  then show ?thesis
    using adds_trans [OF adds_schema [where Q = ?Q and w = w and sid = "''leads''"
                                        and n = "Suc (tick w)"]]
    by (simp add: sync_leads_unfold [OF Inr])
qed

lemma sync_activities_paired:
  assumes rk: "replication_key stream \<notin> {''export_id'', ''export_end''}"
  shows "adds (\<lambda>s. paired s (tap_stream_id stream)) w
           (fst (sync_activities fuel E w st stream))"
proof (cases "pendulum_parse (get_bookmark st (tap_stream_id stream) (replication_key stream))")
  case (Inl e)
  then show ?thesis
    by (simp add: sync_activities_def Let_def adds_write_schema)
next
  case (Inr es)
  let ?Q = "\<lambda>s. paired s (tap_stream_id stream)"
  let ?w1 = "w\<lparr>events := events w @ [WriteSchema (tap_stream_id stream)], tick := Suc (tick w)\<rparr>"
  let ?loop = "activities_loop fuel E stream (clock E (tick w)) ?w1 st es 0"
  have "adds ?Q ?w1 (fst ?loop) \<and> (\<forall>st' n. snd ?loop = Ok (st', n) \<longrightarrow> True)"
  proof (rule activities_loop_adds [where I = "\<lambda>s. True"])
    show "True \<and> ?Q (export_info_state s stream PNone (PStr i) (PTime e))" for s i e
      using paired_after_writer [OF rk, of "PStr i" "PTime e" s PNone] by simp
    show "?Q (export_info_state s stream PNone PNone PNone)" for s
      using paired_after_writer [OF rk, of PNone PNone s PNone] by simp
    show "True \<and> ?Q (export_info_state s stream (PTime t) PNone PNone)" for s t
      using paired_after_writer [OF rk, of PNone PNone s "PTime t"] by simp
  qed simp_all
  then show ?thesis
    using adds_trans [OF adds_schema [where Q = ?Q and w = w and sid = "tap_stream_id stream"
                                        and n = "Suc (tick w)"]]
    by (simp add: sync_activities_unfold [OF Inr])
qed

text \<open>
  C9.  The replication key of every stream of the catalog being a key other than the two
  export fields: every state that a run of \<open>sync\<close> writes has, at every stream, the two
  export fields both null or both set, or both as the state given to the run has them
  (so that no write other than the writer's changes either); every state that
  \<open>sync_leads\<close> or \<open>sync_activities\<close> writes has them both null or both set at the
  stream of the run; and \<open>update_state_with_export_info\<close> leaves the two fields at the
  two values it is given, which are null when left at their defaults.
\<close>

theorem export_fields_paired:
  assumes "\<forall>stream\<in>set catalog. replication_key stream \<notin> {''export_id'', ''export_end''}"
  shows "(\<exists>D. events (fst (sync fuel E w catalog st)) = events w @ D
            \<and> (\<forall>s\<in>set (writes D). \<forall>sid. paired s sid \<or> same_export st s sid))
       \<and> (\<forall>stream\<in>set catalog. \<forall>w0 st0.
             (\<exists>D. events (fst (sync_leads fuel E w0 st0 stream)) = events w0 @ D
                  \<and> (\<forall>s\<in>set (writes D). paired s (tap_stream_id stream)))
             \<and> (\<exists>D. events (fst (sync_activities fuel E w0 st0 stream)) = events w0 @ D
                  \<and> (\<forall>s\<in>set (writes D). paired s (tap_stream_id stream))))
       \<and> (\<forall>stream\<in>set catalog. \<forall>w0 st0 b i e.
             get_bookmark (snd (update_state_with_export_info w0 st0 stream b i e))
               (tap_stream_id stream) ''export_id'' = i
             \<and> get_bookmark (snd (update_state_with_export_info w0 st0 stream b i e))
                 (tap_stream_id stream) ''export_end'' = e)"
proof -
  let ?P = "\<lambda>s. \<forall>sid. paired s sid \<or> same_export st s sid"
  have start: "?P st" by (simp add: same_export_def)
  have "adds ?P w (fst (sync_streams (sync_stream fuel E) catalog w st (get_currently_syncing st)))"
  proof (rule sync_streams_stable [where P = ?P, OF stable_paired_or_same _ start])
    fix w0 st0 stream
    assume "?P st0" "stream \<in> set catalog"
    then show "adds ?P w0 (fst (sync_stream fuel E w0 st0 stream))
       \<and> (\<forall>st' n. snd (sync_stream fuel E w0 st0 stream) = Ok (st', n) \<longrightarrow> ?P st')"
      using assms by (intro sync_stream_stable [where P = ?P, OF stable_paired_or_same]) auto
  qed
  then have whole: "\<exists>D. events (fst (sync fuel E w catalog st)) = events w @ D
            \<and> (\<forall>s\<in>set (writes D). \<forall>sid. paired s sid \<or> same_export st s sid)"
    by (simp add: sync_def adds_def)
  have drivers: "(\<exists>D. events (fst (sync_leads fuel E w0 st0 stream)) = events w0 @ D
                  \<and> (\<forall>s\<in>set (writes D). paired s (tap_stream_id stream)))
             \<and> (\<exists>D. events (fst (sync_activities fuel E w0 st0 stream)) = events w0 @ D
                  \<and> (\<forall>s\<in>set (writes D). paired s (tap_stream_id stream)))"
    if "stream \<in> set catalog" for stream w0 st0
  proof -
    from that assms have rk: "replication_key stream \<notin> {''export_id'', ''export_end''}" by blast
    show ?thesis
      using sync_leads_paired [OF rk, of w0 fuel E st0]
            sync_activities_paired [OF rk, of w0 fuel E st0]
      by (simp add: adds_def)
  qed
  have writer: "get_bookmark (snd (update_state_with_export_info w0 st0 stream b i e))
               (tap_stream_id stream) ''export_id'' = i
             \<and> get_bookmark (snd (update_state_with_export_info w0 st0 stream b i e))
                 (tap_stream_id stream) ''export_end'' = e"
    if "stream \<in> set catalog" for stream w0 st0 b i e
  proof -
    from that assms have rk: "replication_key stream \<notin> {''export_id'', ''export_end''}" by blast
    then show ?thesis
      by (auto simp: update_state_with_export_info_def export_info_state_def Let_def
            get_write_bookmark)
  qed
  show ?thesis
    using whole drivers writer by blast
qed


lemma day40_sync_writes:
  "list_ex (\<lambda>s. get_bookmark s ''leads'' ''export_id'' \<noteq> PNone)
     (writes (events (fst (sync 2 day40_env world0 [leads_stream] epoch_state))))"
  by (simp add: sync_def sync_stream_def set_currently_syncing_def get_currently_syncing_def
        leads_run_defs format_defs day40_env_def sample_env_def world0_def
        epoch_state_def leads_stream_def writes_def numeral_2_eq_2)

theorem export_fields_paired_witness:
  "list_ex (\<lambda>s. get_bookmark s ''leads'' ''export_id'' \<noteq> PNone)
     (writes (events (fst (sync 2 day40_env world0 [leads_stream] epoch_state))))
   \<and> list_all (\<lambda>s. paired s ''leads'' \<or> same_export epoch_state s ''leads'')
       (writes (events (fst (sync 2 day40_env world0 [leads_stream] epoch_state))))
   \<and> list_all (\<lambda>s. paired s ''leads'')
       (writes (events (fst (sync_leads 2 day40_env world0 epoch_state leads_stream))))"
proof -
  have hyp: "\<forall>stream\<in>set [leads_stream].
               replication_key stream \<notin> {''export_id'', ''export_end''}"
    by (simp add: leads_stream_def)
  have id: "tap_stream_id leads_stream = ''leads''" by (simp add: leads_stream_def)
  have nil: "events world0 = []" by (simp add: world0_def)
  note th = export_fields_paired [OF hyp, of 2 day40_env world0 epoch_state]
  from th obtain D where
    "events (fst (sync 2 day40_env world0 [leads_stream] epoch_state)) = events world0 @ D"
    "\<forall>s\<in>set (writes D). \<forall>sid. paired s sid \<or> same_export epoch_state s sid"
    by blast
  then have whole: "list_all (\<lambda>s. paired s ''leads'' \<or> same_export epoch_state s ''leads'')
       (writes (events (fst (sync 2 day40_env world0 [leads_stream] epoch_state))))"
    by (simp add: nil list_all_iff)
  from th have "\<exists>D. events (fst (sync_leads 2 day40_env world0 epoch_state leads_stream))
                      = events world0 @ D
                  \<and> (\<forall>s\<in>set (writes D). paired s (tap_stream_id leads_stream))"
    by simp
  then have driver: "list_all (\<lambda>s. paired s ''leads'')
       (writes (events (fst (sync_leads 2 day40_env world0 epoch_state leads_stream))))"
    by (auto simp: nil id list_all_iff)
  from day40_sync_writes whole driver show ?thesis by blast
qed

end
